theory Spec2Isabelle
  imports Main "HOL-Library.Word"
begin

unbundle bit_operations_syntax

section \<open>Bytes, big-endian integers and the reader primitives\<close>

type_synonym byte = "8 word"
type_synonym uint32 = "32 word"

text \<open>
  The errors a scan of an in-memory byte source can meet: \<open>io.EOF\<close> and
  \<open>io.ErrUnexpectedEOF\<close>. The reader of the model is the list of bytes not yet read
  (\<open>bytes.Reader\<close> behind \<open>io.NopCloser\<close>, as \<open>FromBytes\<close> builds it).
\<close>

datatype error = EOF | ErrUnexpectedEOF

text \<open>\<open>binary.BigEndian.PutUint32\<close> and \<open>binary.BigEndian.Uint32\<close>.\<close>

definition put_uint32 :: "uint32 \<Rightarrow> byte list" where
  "put_uint32 v = [ucast (drop_bit 24 v), ucast (drop_bit 16 v), ucast (drop_bit 8 v), ucast v]"

definition be_uint32 :: "byte list \<Rightarrow> uint32" where
  "be_uint32 b = ucast (b ! 3) OR push_bit 8 (ucast (b ! 2)) OR push_bit 16 (ucast (b ! 1))
     OR push_bit 24 (ucast (b ! 0))"

text \<open>
  \<open>io.ReadFull(r, buf)\<close> with \<open>len(buf) = n\<close>: the bytes read, or \<open>io.EOF\<close> when
  nothing could be read, or \<open>io.ErrUnexpectedEOF\<close> after a partial read (which has
  consumed what was there). A read of zero bytes succeeds without touching the reader.
\<close>

definition io_ReadFull :: "byte list \<Rightarrow> nat \<Rightarrow> (error + byte list) \<times> byte list" where
  "io_ReadFull r n =
     (if n \<le> length r then (Inr (take n r), drop n r)
      else if r = [] then (Inl EOF, [])
      else (Inl ErrUnexpectedEOF, []))"

text \<open>\<open>binary.Read(r, binary.BigEndian, &v)\<close> for a \<open>uint32\<close>: \<open>io.ReadFull\<close> of 4 bytes.\<close>

definition binary_Read :: "byte list \<Rightarrow> (error + uint32) \<times> byte list" where
  "binary_Read r =
     (case io_ReadFull r 4 of
        (Inl e, r') \<Rightarrow> (Inl e, r')
      | (Inr bs, r') \<Rightarrow> (Inr (be_uint32 bs), r'))"

text \<open>
  \<open>io.CopyN(dst, r, n)\<close>: copies up to \<open>n\<close> bytes; when the source ends before \<open>n\<close>
  bytes were copied, what was there has been written to \<open>dst\<close> and the error is
  \<open>io.EOF\<close>. The result is the error, the bytes written and the reader left.
\<close>

definition io_CopyN :: "byte list \<Rightarrow> nat \<Rightarrow> error option \<times> byte list \<times> byte list" where
  "io_CopyN r n =
     (if n \<le> length r then (None, take n r, drop n r)
      else (Some EOF, r, []))"

section \<open>Binary layout constants (png\_scanner.go)\<close>

definition headerSize :: nat where "headerSize = 8"
definition ihdrSize :: nat where "ihdrSize = 25"
definition fullIhdrSize :: nat where "fullIhdrSize = headerSize + ihdrSize"

definition pngHeader :: "byte list" where
  "pngHeader = [0x89, 0x50, 0x4E, 0x47, 0x0D, 0x0A, 0x1A, 0x0A]"

definition chunkTextTypeCode :: uint32 where
  "chunkTextTypeCode = 0x74455874"

definition charaKeyword :: "byte list" where
  "charaKeyword = [0x63, 0x68, 0x61, 0x72, 0x61, 0x00]"

definition ccv3Keyword :: "byte list" where
  "ccv3Keyword = [0x63, 0x63, 0x76, 0x33, 0x00]"

text \<open>\<open>character.Revision\<close> is a Go \<open>int\<close>; only comparisons are made on it.\<close>

type_synonym Revision = int

definition RevisionV2 :: Revision where "RevisionV2 = 2"
definition RevisionV3 :: Revision where "RevisionV3 = 3"

definition keywords_map :: "Revision \<rightharpoonup> byte list" where
  "keywords_map = [RevisionV2 \<mapsto> charaKeyword, RevisionV3 \<mapsto> ccv3Keyword]"

definition keywordsLength :: "Revision \<rightharpoonup> int" where
  "keywordsLength = [RevisionV2 \<mapsto> int (length charaKeyword), RevisionV3 \<mapsto> int (length ccv3Keyword)]"

text \<open>Indexing a Go map with a missing key gives the zero value.\<close>

definition keywordsLength_at :: "Revision \<Rightarrow> int" where
  "keywordsLength_at revision = (case keywordsLength revision of None \<Rightarrow> 0 | Some n \<Rightarrow> n)"

section \<open>Revisions and stamps (package character)\<close>

type_synonym Spec = string
type_synonym Version = string

definition SpecV2 :: Spec where "SpecV2 = ''chara_card_v2''"
definition SpecV3 :: Spec where "SpecV3 = ''chara_card_v3''"

definition V2 :: Version where "V2 = ''2.0''"
definition V3 :: Version where "V3 = ''3.0''"

record Stamp =
  Spec :: Spec
  Version :: Version
  Revision :: Revision

definition Stamps :: "Revision \<rightharpoonup> Stamp" where
  "Stamps =
     [RevisionV2 \<mapsto> \<lparr>Spec = SpecV2, Version = V2, Revision = RevisionV2\<rparr>,
      RevisionV3 \<mapsto> \<lparr>Spec = SpecV3, Version = V3, Revision = RevisionV3\<rparr>]"

text \<open>\<open>Stamps[revision]\<close>: a missing key gives the zero \<open>Stamp\<close>.\<close>

definition Stamps_at :: "Revision \<Rightarrow> Stamp" where
  "Stamps_at revision =
     (case Stamps revision of
        None \<Rightarrow> \<lparr>Spec = [], Version = [], Revision = 0\<rparr>
      | Some stamp \<Rightarrow> stamp)"

text \<open>
  \<open>Sheet\<close> (sheet.go). The embedded \<open>Content\<close> (content.go) is neither read nor written
  by package png: it is a type parameter here, and the zero value \<open>Content{}\<close> that
  \<open>&Sheet{}\<close> holds is the \<open>default\<close> of its type.
\<close>

record 'c Sheet =
  Spec :: Spec
  Version :: Version
  Revision :: Revision
  Content :: 'c

definition SetRevision :: "'c Sheet \<Rightarrow> Revision \<Rightarrow> 'c Sheet" where
  "SetRevision s revision =
     (let stamp = Stamps_at revision
      in s\<lparr>Sheet.Revision := revision,
           Sheet.Spec := Stamp.Spec stamp,
           Sheet.Version := Stamp.Version stamp\<rparr>)"

definition DefaultSheet :: "Revision \<Rightarrow> ('c::default) Sheet" where
  "DefaultSheet revision =
     (let sheet = \<lparr>Sheet.Spec = [], Sheet.Version = [], Sheet.Revision = 0, Content = default\<rparr>
      in SetRevision sheet revision)"

section \<open>Cards (image.go, card.go)\<close>

record pngData =
  Header :: "byte list"
  Body :: "byte list"

text \<open>The embedded \<open>*character.Sheet\<close> of a \<open>CharacterCard\<close> may be nil.\<close>

record 'c CharacterCard = pngData +
  Sheet :: "'c Sheet option"

record RawJsonCard = pngData +
  RawJsonData :: "byte list"
  Revision :: Revision

record RawCard = pngData +
  RawCharaData :: "byte list"
  Revision :: Revision

section \<open>Base64 (encoding/base64, StdEncoding)\<close>

definition encodeStd :: "byte list" where
  "encodeStd = map of_char ''ABCDEFGHIJKLMNOPQRSTUVWXYZabcdefghijklmnopqrstuvwxyz0123456789+/''"

definition padChar :: byte where
  "padChar = of_char CHR ''=''"

text \<open>\<open>enc.encode[v & 0x3F]\<close>, on the 64-bit \<open>uint\<close> of the encoder.\<close>

definition encode_at :: "64 word \<Rightarrow> byte" where
  "encode_at v = encodeStd ! unat (v AND 0x3F)"

text \<open>
  \<open>Encode\<close>: whole groups of three bytes give four characters each; a remainder of two
  or one bytes gives three or two characters and the padding.
\<close>

fun base64_Encode :: "byte list \<Rightarrow> byte list" where
  "base64_Encode (a # b # c # src) =
     (let val = push_bit 16 (ucast a) OR push_bit 8 (ucast b) OR ucast c
      in [encode_at (drop_bit 18 val), encode_at (drop_bit 12 val),
          encode_at (drop_bit 6 val), encode_at val] @ base64_Encode src)"
| "base64_Encode [a, b] =
     (let val = push_bit 16 (ucast a) OR push_bit 8 (ucast b)
      in [encode_at (drop_bit 18 val), encode_at (drop_bit 12 val),
          encode_at (drop_bit 6 val), padChar])"
| "base64_Encode [a] =
     (let val = push_bit 16 (ucast a)
      in [encode_at (drop_bit 18 val), encode_at (drop_bit 12 val), padChar, padChar])"
| "base64_Encode [] = []"

text \<open>
  \<open>CorruptInputError\<close>: the offset of the offending input byte.
\<close>

datatype CorruptInputError = CorruptInputError int

text \<open>
  \<open>decodeMap\<close>, as \<open>NewEncoding\<close> builds it: every entry is \<open>0xFF\<close>, then entry
  \<open>encoder[i]\<close> becomes \<open>i\<close>.
\<close>

fun populate_decodeMap :: "byte list \<Rightarrow> nat \<Rightarrow> (byte \<Rightarrow> byte) \<Rightarrow> byte \<Rightarrow> byte" where
  "populate_decodeMap [] i m = m"
| "populate_decodeMap (e # encoder) i m = populate_decodeMap encoder (Suc i) (m(e := of_nat i))"

definition decodeMap :: "byte \<Rightarrow> byte" where
  "decodeMap = populate_decodeMap encodeStd 0 (\<lambda>_. 0xFF)"

text \<open>
  The loop \<open>for si < len(src) && (src[si] == '\n' || src[si] == '\r') { si++ }\<close>, on the
  unread part of the input and its offset.
\<close>

fun skip_newlines :: "byte list \<Rightarrow> nat \<Rightarrow> byte list \<times> nat" where
  "skip_newlines [] si = ([], si)"
| "skip_newlines (c # src) si =
     (if c = 0x0A \<or> c = 0x0D then skip_newlines src (Suc si) else (c # src, si))"

text \<open>
  The end of \<open>decodeQuantum\<close>: the \<open>dlen\<close> six-bit values collected in \<open>dbuf\<close> (the
  other entries of the array are zero) are packed into a \<open>uint\<close>, of which the first
  \<open>dlen - 1\<close> bytes are written. The encoding is not strict.
\<close>

definition quantum_bytes :: "byte list \<Rightarrow> byte list" where
  "quantum_bytes dbuf =
     (let d = dbuf @ replicate (4 - length dbuf) 0;
          val = (push_bit 18 (ucast (d ! 0)) OR push_bit 12 (ucast (d ! 1)) OR
                 push_bit 6 (ucast (d ! 2)) OR ucast (d ! 3) :: 64 word)
      in take (length dbuf - 1) [ucast (drop_bit 16 val), ucast (drop_bit 8 val), ucast val])"

text \<open>\<open>if si < len(src) { err = CorruptInputError(si) }\<close>, after the padding.\<close>

definition trailing_garbage :: "byte list \<Rightarrow> nat \<Rightarrow> CorruptInputError option" where
  "trailing_garbage src si = (if src \<noteq> [] then Some (CorruptInputError (int si)) else None)"

text \<open>
  \<open>decodeQuantum\<close>, on the unread input \<open>src[si:]\<close>, the offset \<open>si\<close> and the values
  collected so far (\<open>j = length dbuf\<close>). It returns the unread input, the new offset, the
  bytes written and the error. The encoding pads with \<open>padChar\<close>, so an input that ends
  inside a quantum is an error.
\<close>

fun decodeQuantum ::
  "byte list \<Rightarrow> nat \<Rightarrow> byte list \<Rightarrow> byte list \<times> nat \<times> byte list \<times> CorruptInputError option" where
  "decodeQuantum [] si dbuf =
     (if length dbuf = 4 then ([], si, quantum_bytes dbuf, None)
      else if length dbuf = 0 then ([], si, [], None)
      else ([], si, [], Some (CorruptInputError (int si - int (length dbuf)))))"
| "decodeQuantum (c # src) si dbuf =
     (if length dbuf = 4 then (c # src, si, quantum_bytes dbuf, None)
      else if decodeMap c \<noteq> 0xFF then decodeQuantum src (Suc si) (dbuf @ [decodeMap c])
      else if c = 0x0A \<or> c = 0x0D then decodeQuantum src (Suc si) dbuf
      else if c \<noteq> padChar then (src, Suc si, [], Some (CorruptInputError (int (Suc si) - 1)))
      else if length dbuf < 2 then (src, Suc si, [], Some (CorruptInputError (int (Suc si) - 1)))
      else if length dbuf = 2 then
        (case skip_newlines src (Suc si) of
           ([], si1) \<Rightarrow> ([], si1, [], Some (CorruptInputError (int si1)))
         | (c1 # src1, si1) \<Rightarrow>
             if c1 \<noteq> padChar then (c1 # src1, si1, [], Some (CorruptInputError (int si1 - 1)))
             else (case skip_newlines src1 (Suc si1) of
                     (src2, si2) \<Rightarrow> (src2, si2, quantum_bytes dbuf, trailing_garbage src2 si2)))
      else (case skip_newlines src (Suc si) of
              (src2, si2) \<Rightarrow> (src2, si2, quantum_bytes dbuf, trailing_garbage src2 si2)))"

text \<open>
  \<open>Decode\<close>: quantum after quantum until the input is read or a quantum fails. The
  loops of \<open>Decode\<close> over eight and over four characters at a time decode the same
  quanta and fall back to \<open>decodeQuantum\<close> on any character outside the alphabet. The
  result is the bytes written, \<open>decodedJSON[:n]\<close> for the caller.
\<close>

function base64_Decode_loop :: "byte list \<Rightarrow> nat \<Rightarrow> byte list \<Rightarrow> CorruptInputError + byte list" where
  "base64_Decode_loop src si dst =
     (if src = [] then Inr dst
      else (case decodeQuantum src si [] of
              (src', nsi, out, Some e) \<Rightarrow> Inl e
            | (src', nsi, out, None) \<Rightarrow> base64_Decode_loop src' nsi (dst @ out)))"
  by pat_completeness auto

definition base64_Decode :: "byte list \<Rightarrow> CorruptInputError + byte list" where
  "base64_Decode src = (if length src = 0 then Inr [] else base64_Decode_loop src 0 [])"

section \<open>CRC-32 (hash/crc32, IEEE polynomial)\<close>

text \<open>
  The table-driven reference algorithm of the Go library: \<open>simplePopulateTable\<close> and
  \<open>simpleUpdate\<close>. The digest of \<open>crc32.NewIEEE()\<close> starts at 0, \<open>Write\<close> replaces it
  by \<open>update\<close> of the bytes written, and \<open>Sum32\<close> returns it.
\<close>

definition crc32_IEEE :: uint32 where
  "crc32_IEEE = 0xEDB88320"

definition crc_shift :: "uint32 \<Rightarrow> uint32" where
  "crc_shift crc = (if crc AND 1 = 1 then drop_bit 1 crc XOR crc32_IEEE else drop_bit 1 crc)"

definition crc_table :: "byte \<Rightarrow> uint32" where
  "crc_table i = (crc_shift ^^ 8) (ucast i)"

definition crc_update :: "uint32 \<Rightarrow> byte list \<Rightarrow> uint32" where
  "crc_update crc p =
     NOT (foldl (\<lambda>c v. crc_table (ucast c XOR v) XOR drop_bit 8 c) (NOT crc) p)"

definition crc32_ChecksumIEEE :: "byte list \<Rightarrow> uint32" where
  "crc32_ChecksumIEEE p = crc_update 0 p"

section \<open>Card representation pipeline (card.go)\<close>

definition RawCard_ToRawJson :: "RawCard \<Rightarrow> CorruptInputError + RawJsonCard" where
  "RawCard_ToRawJson rc =
     (let rawJsonCard = \<lparr>Header = Header rc, Body = Body rc, RawJsonData = [],
                         RawJsonCard.Revision = RawCard.Revision rc\<rparr>
      in if length (RawCharaData rc) = 0 then Inr rawJsonCard
         else (case base64_Decode (RawCharaData rc) of
                 Inl e \<Rightarrow> Inl e
               | Inr decodedJSON \<Rightarrow> Inr (rawJsonCard\<lparr>RawJsonData := decodedJSON\<rparr>)))"

text \<open>
  \<open>character.FromBytes\<close> and \<open>Sheet.ToBytes\<close> hand the sheet to the JSON library
  (\<open>jsonx\<close>, \<open>sonicx\<close>), which is outside the repository: the decoder and the encoder
  are parameters of the transforms that call them, and \<open>'e\<close> is the type of their errors.
\<close>

definition ToCharacter ::
  "(byte list \<Rightarrow> 'e + 'c Sheet) \<Rightarrow> RawJsonCard \<Rightarrow> 'e + ('c::default) CharacterCard" where
  "ToCharacter character_FromBytes rjc =
     (let characterCard = \<lparr>Header = Header rjc, Body = Body rjc, Sheet = None\<rparr>
      in if length (RawJsonData rjc) = 0
         then Inr (characterCard\<lparr>Sheet := Some (DefaultSheet RevisionV2)\<rparr>)
         else
           (case character_FromBytes (RawJsonData rjc) of
              Inl e \<Rightarrow> Inl e
            | Inr sheet \<Rightarrow>
                let stamp = Stamps_at (RawJsonCard.Revision rjc);
                    sheet1 = sheet\<lparr>Sheet.Revision := RawJsonCard.Revision rjc\<rparr>;
                    sheet2 = sheet1\<lparr>Sheet.Spec := Stamp.Spec stamp\<rparr>;
                    sheet3 = sheet2\<lparr>Sheet.Version := Stamp.Version stamp\<rparr>
                in Inr (characterCard\<lparr>Sheet := Some sheet3\<rparr>)))"

definition CharacterCard_ToRawJson ::
  "('c Sheet \<Rightarrow> 'e + byte list) \<Rightarrow> 'c CharacterCard \<Rightarrow> 'e + RawJsonCard" where
  "CharacterCard_ToRawJson Sheet_ToBytes cc =
     (let rawJsonCard = \<lparr>Header = Header cc, Body = Body cc, RawJsonData = [],
                         RawJsonCard.Revision = 0\<rparr>
      in case Sheet cc of
           None \<Rightarrow> Inr rawJsonCard
         | Some sheet \<Rightarrow>
             (case Sheet_ToBytes sheet of
                Inl e \<Rightarrow> Inl e
              | Inr jsonData \<Rightarrow>
                  Inr (rawJsonCard\<lparr>RawJsonData := jsonData,
                                   RawJsonCard.Revision := Sheet.Revision sheet\<rparr>)))"

definition ToRaw :: "RawJsonCard \<Rightarrow> RawCard" where
  "ToRaw rjc =
     (let rawCard = \<lparr>Header = Header rjc, Body = Body rjc, RawCharaData = [],
                     Revision = RawJsonCard.Revision rjc\<rparr>
      in if length (RawJsonData rjc) = 0 then rawCard
         else rawCard\<lparr>RawCharaData := base64_Encode (RawJsonData rjc)\<rparr>)"

text \<open>
  \<open>Decode\<close> returns the error of either stage: of the base64 decoder on the left, of the
  JSON decoder on the right.
\<close>

definition Decode ::
  "(byte list \<Rightarrow> 'e + 'c Sheet) \<Rightarrow> RawCard \<Rightarrow>
   (CorruptInputError + 'e) + ('c::default) CharacterCard" where
  "Decode character_FromBytes rc =
     (case RawCard_ToRawJson rc of
        Inl e \<Rightarrow> Inl (Inl e)
      | Inr rjc \<Rightarrow>
          (case ToCharacter character_FromBytes rjc of
             Inl e \<Rightarrow> Inl (Inr e)
           | Inr cc \<Rightarrow> Inr cc))"

definition Encode :: "('c Sheet \<Rightarrow> 'e + byte list) \<Rightarrow> 'c CharacterCard \<Rightarrow> 'e + RawCard" where
  "Encode Sheet_ToBytes cc =
     (case CharacterCard_ToRawJson Sheet_ToBytes cc of
        Inl e \<Rightarrow> Inl e
      | Inr rjc \<Rightarrow> Inr (ToRaw rjc))"

section \<open>Chunk injection (card.go)\<close>

text \<open>\<open>keywords[revision]\<close>: a missing key gives the nil slice.\<close>

definition keywords_at :: "Revision \<Rightarrow> byte list" where
  "keywords_at revision = (case keywords_map revision of None \<Rightarrow> [] | Some k \<Rightarrow> k)"

text \<open>
  \<open>streamCharaChunk\<close> on a writer that is a \<open>bytes.Buffer\<close> (as \<open>ToBytes\<close> passes),
  whose writes cannot fail: the writer is the list of bytes written so far and the
  function returns it extended. The \<open>io.MultiWriter\<close> sends each write to the output and
  to the CRC digest. The chunk length is converted to \<open>uint32\<close>.
\<close>

definition streamCharaChunk :: "RawCard \<Rightarrow> byte list \<Rightarrow> Revision \<Rightarrow> byte list" where
  "streamCharaChunk rc w revision =
     (if length (RawCharaData rc) = 0 then w
      else
        let keyword = (if keywords_map revision = None then keywords_at RevisionV2
                       else keywords_at revision);
            chunkDataLen = (of_nat (length keyword + length (RawCharaData rc)) :: uint32);
            w1 = w @ put_uint32 chunkDataLen;
            crc0 = (0 :: uint32);
            w2 = w1 @ put_uint32 chunkTextTypeCode;
            crc1 = crc_update crc0 (put_uint32 chunkTextTypeCode);
            w3 = w2 @ keyword;
            crc2 = crc_update crc1 keyword;
            w4 = w3 @ RawCharaData rc;
            crc3 = crc_update crc2 (RawCharaData rc)
        in w4 @ put_uint32 crc3)"

definition ToImage :: "RawCard \<Rightarrow> byte list \<Rightarrow> byte list" where
  "ToImage rc w =
     (let w1 = w @ Header rc;
          w2 = streamCharaChunk rc w1 (RawCard.Revision rc)
      in w2 @ Body rc)"

definition RawCard_ToBytes :: "RawCard \<Rightarrow> byte list" where
  "RawCard_ToBytes rc = ToImage rc []"

section \<open>Chunk selection policy (api.go)\<close>

text \<open>
  \<open>criteria\<close> is a function of the held card, the chunk content (keyword included) and
  the chunk's revision. Lengths are Go \<open>int\<close>s.
\<close>

definition isLarger :: "RawCard \<Rightarrow> byte list \<Rightarrow> Revision \<Rightarrow> bool" where
  "isLarger rawCard chunk revision \<longleftrightarrow>
     int (length chunk) - keywordsLength_at revision \<ge> int (length (RawCharaData rawCard))"

definition isHigherVersion :: "RawCard \<Rightarrow> byte list \<Rightarrow> Revision \<Rightarrow> bool" where
  "isHigherVersion rawCard chunk revision \<longleftrightarrow> revision \<ge> RawCard.Revision rawCard"

record ScanMode =
  deepScan :: bool
  criteria :: "RawCard \<Rightarrow> byte list \<Rightarrow> Revision \<Rightarrow> bool"

definition First :: ScanMode where
  "First = \<lparr>deepScan = False, criteria = isLarger\<rparr>"

definition LastVersion :: ScanMode where
  "LastVersion = \<lparr>deepScan = True, criteria = isHigherVersion\<rparr>"

definition LastLongest :: ScanMode where
  "LastLongest = \<lparr>deepScan = True, criteria = isLarger\<rparr>"

definition DefaultScanMode :: ScanMode where
  "DefaultScanMode = First"

section \<open>Scanning processor (png\_scanner.go)\<close>

text \<open>
  The processor's state. The struct's scratch fields \<open>chunkDetails\<close> and \<open>chunkBuffer\<close>
  are written by every call of \<open>processChunk\<close> before they are read, so no value of
  theirs passes from one call to the next: they are local values of \<open>processChunk\<close> here.
  \<open>rawCard\<close> and \<open>bodyBuffer\<close> are set by \<open>Get\<close> before the loop starts.
\<close>

record scanningProcessor =
  header :: "byte list"
  reader :: "byte list"
  scanMode :: ScanMode
  bodyBuffer :: "byte list"
  rawCard :: RawCard
  err :: "error option"

definition emptyRawCard :: RawCard where
  "emptyRawCard = \<lparr>Header = [], Body = [], RawCharaData = [], Revision = 0\<rparr>"

definition newScanningProcessor :: "byte list \<Rightarrow> byte list \<Rightarrow> scanningProcessor" where
  "newScanningProcessor hdr r =
     \<lparr>header = hdr, reader = r, scanMode = DefaultScanMode, bodyBuffer = [],
      rawCard = emptyRawCard, err = None\<rparr>"

text \<open>\<open>bytes.HasPrefix\<close>.\<close>

definition bytes_HasPrefix :: "byte list \<Rightarrow> byte list \<Rightarrow> bool" where
  "bytes_HasPrefix s pre \<longleftrightarrow> length s \<ge> length pre \<and> take (length pre) s = pre"

text \<open>
  \<open>isCharaChunk\<close> ranges over the keyword map, whose iteration order Go leaves open.
  \<open>isCharaChunk_range\<close> is the loop for a given order of the keys; \<open>isCharaChunk\<close>
  takes them in increasing order, and \<open>isCharaChunk_range_order\<close> below shows that the
  other order returns the same.
\<close>

fun isCharaChunk_range :: "Revision list \<Rightarrow> byte list \<Rightarrow> Revision \<times> bool" where
  "isCharaChunk_range [] chunkData = (RevisionV2, False)"
| "isCharaChunk_range (revision # rest) chunkData =
     (case keywords_map revision of
        None \<Rightarrow> isCharaChunk_range rest chunkData
      | Some keyword \<Rightarrow>
          if bytes_HasPrefix chunkData keyword then (revision, True)
          else isCharaChunk_range rest chunkData)"

definition isCharaChunk :: "byte list \<Rightarrow> Revision \<times> bool" where
  "isCharaChunk chunkData =
     (if length chunkData = 0 then (RevisionV2, False)
      else isCharaChunk_range [RevisionV2, RevisionV3] chunkData)"

text \<open>
  \<open>streamCopyChunk\<close>, given the chunk header just read. Writes to the body buffer do
  not fail; the only error is that of \<open>io.CopyN\<close>.
\<close>

definition streamCopyChunk ::
  "scanningProcessor \<Rightarrow> uint32 \<Rightarrow> uint32 \<Rightarrow> error option \<times> scanningProcessor" where
  "streamCopyChunk p len typeCode =
     (let b1 = bodyBuffer p @ put_uint32 len;
          b2 = b1 @ put_uint32 typeCode;
          (e, written, r) = io_CopyN (reader p) (unat len + 4)
      in (e, p\<lparr>reader := r, bodyBuffer := b2 @ written\<rparr>))"

definition processChunk :: "scanningProcessor \<Rightarrow> error option \<times> scanningProcessor" where
  "processChunk p =
     (case binary_Read (reader p) of
        (Inl e, r1) \<Rightarrow> (Some e, p\<lparr>reader := r1\<rparr>)
      | (Inr len, r1) \<Rightarrow>
     (case binary_Read r1 of
        (Inl e, r2) \<Rightarrow> (Some e, p\<lparr>reader := r2\<rparr>)
      | (Inr typeCode, r2) \<Rightarrow>
     if typeCode \<noteq> chunkTextTypeCode then streamCopyChunk (p\<lparr>reader := r2\<rparr>) len typeCode
     else
     (case io_ReadFull r2 (unat len) of
        (Inl e, r3) \<Rightarrow> (Some e, p\<lparr>reader := r3\<rparr>)
      | (Inr chunkBuffer, r3) \<Rightarrow>
     (case io_CopyN r3 4 of
        (Some e, discarded, r4) \<Rightarrow> (Some e, p\<lparr>reader := r4\<rparr>)
      | (None, discarded, r4) \<Rightarrow>
     (let p4 = p\<lparr>reader := r4\<rparr>;
          (revision, isChara) = isCharaChunk chunkBuffer
      in if \<not> isChara then (None, p4)
         else
           let p5 = (if criteria (scanMode p4) (rawCard p4) chunkBuffer revision
                     then p4\<lparr>rawCard := (rawCard p4)
                            \<lparr>RawCharaData := drop (nat (keywordsLength_at revision)) chunkBuffer,
                             Revision := revision\<rparr>\<rparr>
                     else p4)
           in if \<not> deepScan (scanMode p5) \<and> length (RawCharaData (rawCard p5)) > 0
              then (Some EOF, p5)
              else (None, p5))))))"

text \<open>
  The loop of \<open>Get\<close>. On \<open>io.EOF\<close> what is left of the reader is copied to the body
  buffer (\<open>io.Copy\<close>) and the card is returned; any other error ends the scan.
\<close>

function Get_loop :: "scanningProcessor \<Rightarrow> error + RawCard" where
  "Get_loop p =
     (let (e, p') = processChunk p
      in if e = Some EOF
         then (let b = bodyBuffer p' @ reader p'
               in Inr ((rawCard p')\<lparr>Body := b\<rparr>))
         else if e \<noteq> None then Inl (the e)
         else Get_loop p')"
  by pat_completeness auto

definition Get :: "scanningProcessor \<Rightarrow> error + RawCard" where
  "Get p =
     (case err p of
        Some e \<Rightarrow> Inl e
      | None \<Rightarrow>
          Get_loop (p\<lparr>bodyBuffer := [],
                        rawCard := \<lparr>Header = header p, Body = [], RawCharaData = [], Revision = 0\<rparr>\<rparr>))"

section \<open>Entry point (api.go)\<close>

text \<open>
  \<open>FromImage\<close> probes the first \<open>fullIhdrSize\<close> bytes. The converter processor (image
  decoding and re-encoding) is outside this development: \<open>Converting\<close> only records the
  bytes its reader would deliver.
\<close>

datatype Processor = Scanning scanningProcessor | Converting "byte list"

definition FromImage :: "byte list \<Rightarrow> Processor" where
  "FromImage r =
     (case io_ReadFull r fullIhdrSize of
        (Inl e, r') \<Rightarrow> Converting (r @ replicate (fullIhdrSize - length r) 0)
      | (Inr hdr, r') \<Rightarrow>
          if take headerSize hdr \<noteq> pngHeader then Converting (hdr @ r')
          else Scanning (newScanningProcessor hdr r'))"

definition FromBytes :: "byte list \<Rightarrow> Processor" where
  "FromBytes data = FromImage data"

fun Processor_ScanMode :: "Processor \<Rightarrow> ScanMode \<Rightarrow> Processor" where
  "Processor_ScanMode (Scanning p) mode = Scanning (p\<lparr>scanMode := mode\<rparr>)"
| "Processor_ScanMode (Converting c) mode = Converting c"

text \<open>
  \<open>FromBytes(data).ScanMode(mode).Get()\<close> for an input that reaches the scanning
  processor; \<open>None\<close> when the input goes to the converter.
\<close>

definition scan :: "ScanMode \<Rightarrow> byte list \<Rightarrow> (error + RawCard) option" where
  "scan mode data =
     (case Processor_ScanMode (FromBytes data) mode of
        Scanning p \<Rightarrow> Some (Get p)
      | Converting c \<Rightarrow> None)"

section \<open>Chunks and streams\<close>

text \<open>
  The vocabulary of the statements below: a chunk with its type code, content and CRC
  bytes, its encoding \<open>length | typeCode | content | crc\<close>, and a stream of chunks.
\<close>

datatype chunk = Chunk (ctype: uint32) (cdata: "byte list") (ccrc: "byte list")

definition wf_chunk :: "chunk \<Rightarrow> bool" where
  "wf_chunk c \<longleftrightarrow> length (cdata c) < 2 ^ 32 \<and> length (ccrc c) = 4"

definition encode_chunk :: "chunk \<Rightarrow> byte list" where
  "encode_chunk c =
     put_uint32 (of_nat (length (cdata c))) @ put_uint32 (ctype c) @ cdata c @ ccrc c"

definition encode_chunks :: "chunk list \<Rightarrow> byte list" where
  "encode_chunks cs = concat (map encode_chunk cs)"

text \<open>A well-formed image header: \<open>fullIhdrSize\<close> bytes starting with the signature.\<close>

definition wf_header :: "byte list \<Rightarrow> bool" where
  "wf_header hdr \<longleftrightarrow> length hdr = fullIhdrSize \<and> take headerSize hdr = pngHeader"

text \<open>
  The chunks the scanner keeps in the body, and the candidates: the text chunks whose
  content starts with a keyword, as revision and content (keyword included).
\<close>

definition is_candidate :: "chunk \<Rightarrow> bool" where
  "is_candidate c \<longleftrightarrow> ctype c = chunkTextTypeCode \<and> snd (isCharaChunk (cdata c))"

definition opaque_chunks :: "chunk list \<Rightarrow> chunk list" where
  "opaque_chunks cs = filter (\<lambda>c. ctype c \<noteq> chunkTextTypeCode) cs"

definition candidate_of :: "chunk \<Rightarrow> Revision \<times> byte list" where
  "candidate_of c = (fst (isCharaChunk (cdata c)), cdata c)"

definition candidates :: "chunk list \<Rightarrow> (Revision \<times> byte list) list" where
  "candidates cs = map candidate_of (filter is_candidate cs)"

text \<open>The payload of a candidate: its content with the keyword stripped.\<close>

definition payload :: "Revision \<times> byte list \<Rightarrow> byte list" where
  "payload cand = drop (nat (keywordsLength_at (fst cand))) (snd cand)"

text \<open>One candidate offered to the held card, as \<open>processChunk\<close> does it.\<close>

definition offer ::
  "(RawCard \<Rightarrow> byte list \<Rightarrow> Revision \<Rightarrow> bool) \<Rightarrow> RawCard \<Rightarrow> Revision \<times> byte list \<Rightarrow> RawCard" where
  "offer crit held cand =
     (if crit held (snd cand) (fst cand)
      then held\<lparr>RawCharaData := payload cand, Revision := fst cand\<rparr>
      else held)"

text \<open>
  The keyword that \<open>streamCharaChunk\<close> writes for a revision, and the chunk it writes
  for a revision and a payload, as a chunk of the vocabulary.
\<close>

definition written_keyword :: "Revision \<Rightarrow> byte list" where
  "written_keyword revision =
     (if keywords_map revision = None then keywords_at RevisionV2 else keywords_at revision)"

definition chara_chunk :: "Revision \<Rightarrow> byte list \<Rightarrow> chunk" where
  "chara_chunk revision text =
     Chunk chunkTextTypeCode (written_keyword revision @ text)
       (put_uint32 (crc32_ChecksumIEEE
          (put_uint32 chunkTextTypeCode @ written_keyword revision @ text)))"

text \<open>
  Index \<open>i\<close> is the last position of \<open>xs\<close> whose key is maximal: no key is greater,
  and every later key is strictly smaller.
\<close>

definition last_maximal :: "('a \<Rightarrow> 'b::linorder) \<Rightarrow> 'a list \<Rightarrow> nat \<Rightarrow> bool" where
  "last_maximal key xs i \<longleftrightarrow>
     i < length xs \<and> (\<forall>j<length xs. key (xs ! j) \<le> key (xs ! i)) \<and>
     (\<forall>j. i < j \<and> j < length xs \<longrightarrow> key (xs ! j) < key (xs ! i))"

text \<open>
  The recognised payload chunks in the words of the specification, with no reference to
  the scanner's functions: a chunk is a recognised payload chunk when its type is the text
  type and its content has one of the two keywords as a prefix; its revision is the
  keyword's, its payload the content after the keyword. \<open>payload_chunks\<close> lists revision
  and payload of the recognised payload chunks of a stream, in stream order.
\<close>

definition recognised :: "byte list \<Rightarrow> (Revision \<times> byte list) option" where
  "recognised content =
     (if take (length charaKeyword) content = charaKeyword
      then Some (RevisionV2, drop (length charaKeyword) content)
      else if take (length ccv3Keyword) content = ccv3Keyword
      then Some (RevisionV3, drop (length ccv3Keyword) content)
      else None)"

definition payload_of :: "chunk \<Rightarrow> (Revision \<times> byte list) option" where
  "payload_of c = (if ctype c = chunkTextTypeCode then recognised (cdata c) else None)"

definition payload_chunks :: "chunk list \<Rightarrow> (Revision \<times> byte list) list" where
  "payload_chunks cs = List.map_filter payload_of cs"

section \<open>Example streams\<close>

text \<open>
  The one-pixel image header of the repository's tests (\<open>minimalIHDR\<close>), the \<open>IEND\<close>
  chunk (\<open>pngFooter\<close>), and payload chunks carrying short base64 texts.
\<close>

definition minimalIHDR :: "byte list" where
  "minimalIHDR =
     [0x00, 0x00, 0x00, 0x0d, 0x49, 0x48, 0x44, 0x52, 0x00, 0x00, 0x00, 0x01,
      0x00, 0x00, 0x00, 0x01, 0x08, 0x06, 0x00, 0x00, 0x00, 0x1f, 0x15, 0xc4, 0x89]"

definition example_header :: "byte list" where
  "example_header = pngHeader @ minimalIHDR"

definition iend_chunk :: chunk where
  "iend_chunk = Chunk 0x49454E44 [] [0xAE, 0x42, 0x60, 0x82]"

definition v2_chunk :: "byte list \<Rightarrow> chunk" where
  "v2_chunk text = Chunk chunkTextTypeCode (charaKeyword @ text) [0, 0, 0, 0]"

definition v3_chunk :: "byte list \<Rightarrow> chunk" where
  "v3_chunk text = Chunk chunkTextTypeCode (ccv3Keyword @ text) [0, 0, 0, 0]"

text \<open>
  Stand-ins for the JSON codec in the examples: an encoder that returns a given text, a
  decoder that returns a given record, a decoder that fails; a card to encode; a stream
  whose last chunk announces five bytes of content and holds two; a stream whose first
  payload chunk has an empty payload.
\<close>

definition empty_json_object :: "byte list" where
  "empty_json_object = map of_char ''{}''"

definition encode_as :: "byte list \<Rightarrow> unit Sheet \<Rightarrow> unit + byte list" where
  "encode_as json sheet = Inr json"

definition decode_as :: "unit Sheet \<Rightarrow> byte list \<Rightarrow> unit + unit Sheet" where
  "decode_as sheet json = Inr sheet"

definition example_sheet :: "Revision \<Rightarrow> unit Sheet" where
  "example_sheet revision = DefaultSheet revision"

definition example_card :: "unit CharacterCard" where
  "example_card =
     \<lparr>Header = example_header, Body = encode_chunk iend_chunk,
      Sheet = Some (example_sheet RevisionV3)\<rparr>"

definition truncated_stream :: "byte list" where
  "truncated_stream = example_header @ [0, 0, 0, 5, 0x49, 0x44, 0x41, 0x54, 1, 2]"

definition empty_first_stream :: "byte list" where
  "empty_first_stream =
     example_header @ encode_chunk (v2_chunk []) @
     encode_chunk (v3_chunk [0x65, 0x33, 0x30, 0x3D]) @ encode_chunk iend_chunk"

definition reject_json :: "byte list \<Rightarrow> unit + unit Sheet" where
  "reject_json json = Inl ()"

text \<open>
  A decoder that accepts one text only; three base64 texts, of 12, 12 and 4 bytes; a
  stream with three payload chunks, the first and the last of the same payload length;
  two streams with one payload chunk of each revision, in either order.
\<close>

definition decode_exactly :: "byte list \<Rightarrow> unit Sheet \<Rightarrow> byte list \<Rightarrow> unit + unit Sheet" where
  "decode_exactly json sheet input = (if input = json then Inr sheet else Inl ())"

definition text_a :: "byte list" where
  "text_a = map of_char ''eyJhIjoxfQ==''"

definition text_b :: "byte list" where
  "text_b = map of_char ''eyJiIjoyfQ==''"

definition text_c :: "byte list" where
  "text_c = map of_char ''e30=''"

definition longest_example :: "chunk list" where
  "longest_example = [v3_chunk text_a, v2_chunk text_c, v2_chunk text_b, iend_chunk]"

definition version_example_32 :: "chunk list" where
  "version_example_32 = [v3_chunk text_c, v2_chunk text_a, iend_chunk]"

definition version_example_23 :: "chunk list" where
  "version_example_23 = [v2_chunk text_a, iend_chunk, v3_chunk text_c]"

section \<open>Facts about the primitives\<close>

lemma be_uint32_put_uint32: "be_uint32 (put_uint32 v) = v"
  unfolding be_uint32_def put_uint32_def
  apply simp
  apply (rule bit_word_eqI)
  subgoal for n
    by (cases "n < 8"; cases "n < 16"; cases "n < 24") (auto simp add: bit_simps)
  done

lemma length_put_uint32: "length (put_uint32 v) = 4"
  by (simp add: put_uint32_def)

lemma crc_update_append: "crc_update (crc_update c p) q = crc_update c (p @ q)"
  by (simp add: crc_update_def)

lemma keywords_V2: "keywords_map RevisionV2 = Some charaKeyword"
  by (simp add: keywords_map_def RevisionV2_def RevisionV3_def)

lemma keywords_V3: "keywords_map RevisionV3 = Some ccv3Keyword"
  by (simp add: keywords_map_def RevisionV2_def RevisionV3_def)

lemma keywords_other:
  "revision \<noteq> RevisionV2 \<Longrightarrow> revision \<noteq> RevisionV3 \<Longrightarrow> keywords_map revision = None"
  by (simp add: keywords_map_def)

section \<open>Termination of the scan\<close>

lemma io_CopyN_reader_le: "io_CopyN r n = (e, w, r') \<Longrightarrow> length r' \<le> length r"
  by (auto simp add: io_CopyN_def split: if_splits)

lemma io_ReadFull_reader_le: "io_ReadFull r n = (x, r') \<Longrightarrow> length r' \<le> length r"
  by (auto simp add: io_ReadFull_def split: if_splits)

lemma binary_Read_Inr_less: "binary_Read r = (Inr v, r') \<Longrightarrow> length r' < length r"
  by (auto simp add: binary_Read_def io_ReadFull_def split: if_splits)

lemma streamCopyChunk_reader_le:
  "streamCopyChunk p len tc = (e, p') \<Longrightarrow> length (reader p') \<le> length (reader p)"
  by (auto simp add: streamCopyChunk_def Let_def split: prod.splits dest: io_CopyN_reader_le)

text \<open>A call of \<open>processChunk\<close> that asks for another one has consumed input.\<close>

lemma processChunk_reader_less:
  assumes "processChunk p = (None, p')"
  shows "length (reader p') < length (reader p)"
proof -
  obtain len r1 where r1: "binary_Read (reader p) = (Inr len, r1)"
    using assms by (auto simp add: processChunk_def split: prod.splits sum.splits)
  obtain tc r2 where r2: "binary_Read r1 = (Inr tc, r2)"
    using assms r1 by (auto simp add: processChunk_def split: prod.splits sum.splits)
  have l2: "length r2 < length (reader p)"
    using binary_Read_Inr_less [OF r1] binary_Read_Inr_less [OF r2] by simp
  show ?thesis
  proof (cases "tc = chunkTextTypeCode")
    case False
    then have "streamCopyChunk (p\<lparr>reader := r2\<rparr>) len tc = (None, p')"
      using assms r1 r2 by (simp add: processChunk_def)
    from streamCopyChunk_reader_le [OF this] l2 show ?thesis by simp
  next
    case True
    obtain buf r3 where r3: "io_ReadFull r2 (unat len) = (Inr buf, r3)"
      using assms r1 r2 True by (auto simp add: processChunk_def split: prod.splits sum.splits)
    obtain d r4 where r4: "io_CopyN r3 4 = (None, d, r4)"
      using assms r1 r2 r3 True
      by (auto simp add: processChunk_def split: prod.splits sum.splits option.splits)
    have "reader p' = r4"
      using assms r1 r2 r3 r4 True
      by (auto simp add: processChunk_def Let_def split: prod.splits if_splits)
    then show ?thesis
      using l2 io_ReadFull_reader_le [OF r3] io_CopyN_reader_le [OF r4] by simp
  qed
qed

termination Get_loop
  by (relation "measure (\<lambda>p. length (reader p))") (auto dest: processChunk_reader_less [OF sym])

declare Get_loop.simps [simp del]

subsection \<open>Termination of the base64 decoder\<close>

text \<open>A quantum read from a non-empty input consumes at least one byte.\<close>

lemma skip_newlines_length: "skip_newlines src si = (src', si') \<Longrightarrow> length src' \<le> length src"
  by (induction src si rule: skip_newlines.induct) (auto split: if_splits)

lemma decodeQuantum_length:
  "decodeQuantum src si dbuf = (src', nsi, out, e) \<Longrightarrow> length src' \<le> length src"
proof (induction src si dbuf rule: decodeQuantum.induct)
  case (1 si dbuf)
  then show ?case by (auto split: if_splits)
next
  case (2 c src si dbuf)
  then show ?case
    by (auto split: if_splits prod.splits list.splits dest!: skip_newlines_length)
qed

lemma decodeQuantum_consumes:
  assumes "decodeQuantum (c # src) si [] = (src', nsi, out, e)"
  shows "length src' < length (c # src)"
  using assms
  by (auto split: if_splits prod.splits list.splits
      dest!: skip_newlines_length decodeQuantum_length)

lemma decodeQuantum_progress:
  assumes "src \<noteq> []" "(src', y) = decodeQuantum src si []"
  shows "length src' < length src"
proof -
  from assms(1) obtain c cs where src: "src = c # cs" by (cases src) auto
  obtain nsi out e where y: "y = (nsi, out, e)" by (cases y) auto
  from assms(2) have "decodeQuantum (c # cs) si [] = (src', nsi, out, e)"
    unfolding src y by simp
  from decodeQuantum_consumes [OF this] show ?thesis unfolding src .
qed

termination base64_Decode_loop
  by (relation "measure (\<lambda>(src, si, dst). length src)")
     (simp_all add: decodeQuantum_progress)

declare base64_Decode_loop.simps [simp del]

section \<open>The scan of a stream of chunks\<close>

lemma binary_Read_put_uint32: "binary_Read (put_uint32 v @ r) = (Inr v, r)"
proof -
  have "take 4 (put_uint32 v @ r) = put_uint32 v" "drop 4 (put_uint32 v @ r) = r"
    by (simp_all add: length_put_uint32)
  then show ?thesis
    by (simp add: binary_Read_def io_ReadFull_def length_put_uint32 be_uint32_put_uint32)
qed

lemma unat_chunk_length: "wf_chunk c \<Longrightarrow> unat (of_nat (length (cdata c)) :: uint32) = length (cdata c)"
  by (simp add: wf_chunk_def of_nat_inverse)

lemma processChunk_opaque:
  assumes "wf_chunk c" "ctype c \<noteq> chunkTextTypeCode" "reader p = encode_chunk c @ rest"
  shows "processChunk p = (None, p\<lparr>reader := rest, bodyBuffer := bodyBuffer p @ encode_chunk c\<rparr>)"
proof -
  have len: "length (ccrc c) = 4" using assms(1) by (simp add: wf_chunk_def)
  have "io_CopyN (cdata c @ ccrc c @ rest) (length (cdata c) + 4) = (None, cdata c @ ccrc c, rest)"
    using len by (simp add: io_CopyN_def)
  then show ?thesis
    using assms
    by (simp add: processChunk_def encode_chunk_def binary_Read_put_uint32 streamCopyChunk_def
        unat_chunk_length)
qed

lemma processChunk_text:
  assumes "wf_chunk c" "ctype c = chunkTextTypeCode" "reader p = encode_chunk c @ rest"
  shows "processChunk p =
     (if \<not> is_candidate c then (None, p\<lparr>reader := rest\<rparr>)
      else (if \<not> deepScan (scanMode p) \<and>
               RawCharaData (offer (criteria (scanMode p)) (rawCard p) (candidate_of c)) \<noteq> []
            then Some EOF else None,
            p\<lparr>reader := rest,
              rawCard := offer (criteria (scanMode p)) (rawCard p) (candidate_of c)\<rparr>))"
proof -
  have len: "length (ccrc c) = 4" using assms(1) by (simp add: wf_chunk_def)
  have rf: "io_ReadFull (cdata c @ ccrc c @ rest) (length (cdata c)) = (Inr (cdata c), ccrc c @ rest)"
    by (simp add: io_ReadFull_def)
  have cp: "io_CopyN (ccrc c @ rest) 4 = (None, ccrc c, rest)"
    using len by (simp add: io_CopyN_def)
  show ?thesis
    using assms(2,3) rf cp
    by (cases "isCharaChunk (cdata c)")
       (simp add: processChunk_def encode_chunk_def binary_Read_put_uint32
        unat_chunk_length [OF assms(1)] is_candidate_def offer_def candidate_of_def payload_def)
qed


lemma Get_loop_end:
  assumes "reader p = []"
  shows "Get_loop p = Inr ((rawCard p)\<lparr>Body := bodyBuffer p\<rparr>)"
  using assms
  by (subst Get_loop.simps) (simp add: processChunk_def binary_Read_def io_ReadFull_def)

lemma Get_loop_opaque:
  assumes "wf_chunk c" "ctype c \<noteq> chunkTextTypeCode" "reader p = encode_chunk c @ rest"
  shows "Get_loop p = Get_loop (p\<lparr>reader := rest, bodyBuffer := bodyBuffer p @ encode_chunk c\<rparr>)"
  by (subst Get_loop.simps) (simp add: processChunk_opaque [OF assms])

lemma Get_loop_text_skip:
  assumes "wf_chunk c" "ctype c = chunkTextTypeCode" "\<not> is_candidate c"
    "reader p = encode_chunk c @ rest"
  shows "Get_loop p = Get_loop (p\<lparr>reader := rest\<rparr>)"
  using assms(3)
  by (subst Get_loop.simps) (simp add: processChunk_text [OF assms(1,2,4)])

lemma Get_loop_candidate_continue:
  assumes "wf_chunk c" "is_candidate c" "reader p = encode_chunk c @ rest"
    "deepScan (scanMode p) \<or> RawCharaData (offer (criteria (scanMode p)) (rawCard p) (candidate_of c)) = []"
  shows "Get_loop p = Get_loop (p\<lparr>reader := rest,
           rawCard := offer (criteria (scanMode p)) (rawCard p) (candidate_of c)\<rparr>)"
proof -
  have t: "ctype c = chunkTextTypeCode" using assms(2) by (simp add: is_candidate_def)
  show ?thesis
    using assms(2,4)
    by (subst Get_loop.simps) (auto simp add: processChunk_text [OF assms(1) t assms(3)])
qed

lemma Get_loop_candidate_stop:
  assumes "wf_chunk c" "is_candidate c" "reader p = encode_chunk c @ rest"
    "\<not> deepScan (scanMode p)"
    "RawCharaData (offer (criteria (scanMode p)) (rawCard p) (candidate_of c)) \<noteq> []"
  shows "Get_loop p =
     Inr ((offer (criteria (scanMode p)) (rawCard p) (candidate_of c))\<lparr>Body := bodyBuffer p @ rest\<rparr>)"
proof -
  have t: "ctype c = chunkTextTypeCode" using assms(2) by (simp add: is_candidate_def)
  show ?thesis
    using assms(2,4,5)
    by (subst Get_loop.simps) (simp add: processChunk_text [OF assms(1) t assms(3)])
qed

lemma encode_chunks_Cons: "encode_chunks (c # cs) = encode_chunk c @ encode_chunks cs"
  by (simp add: encode_chunks_def)

lemma encode_chunks_Nil: "encode_chunks [] = []"
  by (simp add: encode_chunks_def)

lemma Get_loop_deep:
  assumes "deepScan (scanMode p)" "\<forall>c\<in>set cs. wf_chunk c" "reader p = encode_chunks cs"
  shows "Get_loop p =
     Inr ((foldl (offer (criteria (scanMode p))) (rawCard p) (candidates cs))
          \<lparr>Body := bodyBuffer p @ encode_chunks (opaque_chunks cs)\<rparr>)"
  using assms
proof (induction cs arbitrary: p)
  case Nil
  then show ?case
    by (simp add: Get_loop_end encode_chunks_Nil opaque_chunks_def candidates_def)
next
  case (Cons c cs)
  have wf: "wf_chunk c" using Cons.prems(2) by simp
  have rd: "reader p = encode_chunk c @ encode_chunks cs"
    using Cons.prems(3) by (simp add: encode_chunks_Cons)
  show ?case
  proof (cases "ctype c = chunkTextTypeCode")
    case False
    then have nc: "\<not> is_candidate c" by (simp add: is_candidate_def)
    let ?p' = "p\<lparr>reader := encode_chunks cs, bodyBuffer := bodyBuffer p @ encode_chunk c\<rparr>"
    have "Get_loop p = Get_loop ?p'" by (rule Get_loop_opaque [OF wf False rd])
    also have "\<dots> = Inr ((foldl (offer (criteria (scanMode ?p'))) (rawCard ?p')
          (candidates cs))
          \<lparr>Body := bodyBuffer ?p' @ encode_chunks (opaque_chunks cs)\<rparr>)"
      using Cons.prems by (intro Cons.IH) simp_all
    finally show ?thesis
      using False nc by (simp add: opaque_chunks_def encode_chunks_Cons candidates_def)
  next
    case True
    show ?thesis
    proof (cases "is_candidate c")
      case False
      let ?p' = "p\<lparr>reader := encode_chunks cs\<rparr>"
      have "Get_loop p = Get_loop ?p'" by (rule Get_loop_text_skip [OF wf True False rd])
      also have "\<dots> = Inr ((foldl (offer (criteria (scanMode ?p'))) (rawCard ?p')
          (candidates cs))
          \<lparr>Body := bodyBuffer ?p' @ encode_chunks (opaque_chunks cs)\<rparr>)"
        using Cons.prems by (intro Cons.IH) simp_all
      finally show ?thesis
        using True False by (simp add: opaque_chunks_def candidates_def)
    next
      case cand: True
      let ?p' = "p\<lparr>reader := encode_chunks cs,
           rawCard := offer (criteria (scanMode p)) (rawCard p) (candidate_of c)\<rparr>"
      have "Get_loop p = Get_loop ?p'"
        using Cons.prems(1) by (intro Get_loop_candidate_continue [OF wf cand rd]) simp
      also have "\<dots> = Inr ((foldl (offer (criteria (scanMode ?p'))) (rawCard ?p')
          (candidates cs))
          \<lparr>Body := bodyBuffer ?p' @ encode_chunks (opaque_chunks cs)\<rparr>)"
        using Cons.prems by (intro Cons.IH) simp_all
      finally show ?thesis
        using True cand by (simp add: opaque_chunks_def candidates_def)
    qed
  qed
qed

section \<open>Selection among candidates\<close>

lemma foldl_offer_select:
  fixes key :: "Revision \<times> byte list \<Rightarrow> int" and hkey :: "RawCard \<Rightarrow> int"
  assumes crit: "\<And>h x. G x \<Longrightarrow> crit h (snd x) (fst x) \<longleftrightarrow> hkey h \<le> key x"
    and upd: "\<And>h x. G x \<Longrightarrow> hkey (h\<lparr>RawCharaData := payload x, Revision := fst x\<rparr>) = key x"
    and init: "\<And>x. G x \<Longrightarrow> hkey h0 \<le> key x"
  shows "\<forall>x\<in>set xs. G x \<Longrightarrow> xs \<noteq> [] \<Longrightarrow>
     \<exists>i<length xs.
        RawCharaData (foldl (offer crit) h0 xs) = payload (xs ! i) \<and>
        RawCard.Revision (foldl (offer crit) h0 xs) = fst (xs ! i) \<and>
        hkey (foldl (offer crit) h0 xs) = key (xs ! i) \<and>
        (\<forall>j<length xs. key (xs ! j) \<le> key (xs ! i)) \<and>
        (\<forall>j. i < j \<and> j < length xs \<longrightarrow> key (xs ! j) < key (xs ! i))"
proof (induction xs rule: rev_induct)
  case Nil
  then show ?case by simp
next
  case (snoc x ys)
  have gx: "G x" using snoc.prems(1) by simp
  show ?case
  proof (cases "ys = []")
    case True
    have "crit h0 (snd x) (fst x)" using crit [OF gx] init [OF gx] by simp
    then show ?thesis
      using True upd [OF gx, of h0] by (simp add: offer_def)
  next
    case False
    let ?h = "foldl (offer crit) h0 ys"
    from snoc.IH False snoc.prems(1)
    obtain i where i: "i < length ys"
      and r: "RawCharaData ?h = payload (ys ! i)" "RawCard.Revision ?h = fst (ys ! i)"
      and k: "hkey ?h = key (ys ! i)"
      and mx: "\<forall>j<length ys. key (ys ! j) \<le> key (ys ! i)"
      and lt: "\<forall>j. i < j \<and> j < length ys \<longrightarrow> key (ys ! j) < key (ys ! i)"
      by auto
    show ?thesis
    proof (cases "hkey ?h \<le> key x")
      case True
      then have acc: "foldl (offer crit) h0 (ys @ [x]) = ?h\<lparr>RawCharaData := payload x, Revision := fst x\<rparr>"
        using crit [OF gx, of ?h] by (simp add: offer_def)
      have "\<forall>j<length (ys @ [x]). key ((ys @ [x]) ! j) \<le> key x"
        using mx k True by (auto simp add: nth_append less_Suc_eq)
      then show ?thesis
        using acc upd [OF gx, of ?h]
        by (intro exI [of _ "length ys"]) (simp add: nth_append)
    next
      case rej: False
      then have same: "foldl (offer crit) h0 (ys @ [x]) = ?h"
        using crit [OF gx, of ?h] by (simp add: offer_def)
      have a: "\<forall>j<length (ys @ [x]). key ((ys @ [x]) ! j) \<le> key (ys ! i)"
        using mx k rej by (auto simp add: nth_append less_Suc_eq)
      have b: "\<forall>j. i < j \<and> j < length (ys @ [x]) \<longrightarrow> key ((ys @ [x]) ! j) < key (ys ! i)"
        using lt k rej by (auto simp add: nth_append less_Suc_eq)
      show ?thesis
        using same r k a b i
        by (intro exI [of _ i]) (simp add: nth_append)
    qed
  qed
qed

lemma scan_wf_header:
  assumes "wf_header hdr"
  shows "scan mode (hdr @ r) =
     Some (Get_loop \<lparr>header = hdr, reader = r, scanMode = mode, bodyBuffer = [],
        rawCard = \<lparr>Header = hdr, Body = [], RawCharaData = [], Revision = 0\<rparr>, err = None\<rparr>)"
  using assms
  by (simp add: scan_def FromBytes_def FromImage_def io_ReadFull_def wf_header_def
      newScanningProcessor_def Get_def)

lemma isCharaChunk_cases:
  "isCharaChunk d = (r, True) \<Longrightarrow>
     (r = RevisionV2 \<and> bytes_HasPrefix d charaKeyword) \<or> (r = RevisionV3 \<and> bytes_HasPrefix d ccv3Keyword)"
  by (auto simp add: isCharaChunk_def keywords_V2 keywords_V3 split: if_splits)

lemma keywordsLength_at_V2: "keywordsLength_at RevisionV2 = 6"
  by (simp add: keywordsLength_at_def keywordsLength_def RevisionV2_def RevisionV3_def charaKeyword_def)

lemma keywordsLength_at_V3: "keywordsLength_at RevisionV3 = 5"
  by (simp add: keywordsLength_at_def keywordsLength_def RevisionV2_def RevisionV3_def ccv3Keyword_def)

lemma candidate_revision:
  "is_candidate c \<Longrightarrow> fst (candidate_of c) = RevisionV2 \<or> fst (candidate_of c) = RevisionV3"
  using isCharaChunk_cases [of "cdata c" "fst (isCharaChunk (cdata c))"]
  by (cases "isCharaChunk (cdata c)") (auto simp add: is_candidate_def candidate_of_def)

lemma candidate_payload_length:
  assumes "is_candidate c"
  shows "int (length (payload (candidate_of c))) =
     int (length (snd (candidate_of c))) - keywordsLength_at (fst (candidate_of c))"
  using isCharaChunk_cases [of "cdata c" "fst (isCharaChunk (cdata c))"] assms
  by (cases "isCharaChunk (cdata c)")
     (auto simp add: is_candidate_def candidate_of_def payload_def bytes_HasPrefix_def
      keywordsLength_at_V2 keywordsLength_at_V3 charaKeyword_def ccv3Keyword_def)


lemma candidates_G: "x \<in> set (candidates cs) \<Longrightarrow> \<exists>c. is_candidate c \<and> x = candidate_of c"
  by (auto simp add: candidates_def)

lemma scan_deep:
  assumes "wf_header hdr" "\<forall>c\<in>set cs. wf_chunk c" "deepScan mode"
  shows "scan mode (hdr @ encode_chunks cs) =
     Some (Inr ((foldl (offer (criteria mode))
                  \<lparr>Header = hdr, Body = [], RawCharaData = [], Revision = 0\<rparr> (candidates cs))
                \<lparr>Body := encode_chunks (opaque_chunks cs)\<rparr>))"
  using assms(2,3)
  by (simp add: scan_wf_header [OF assms(1)] Get_loop_deep)

lemma offer_Header: "Header (foldl (offer crit) h xs) = Header h"
  by (induction xs arbitrary: h) (simp_all add: offer_def)

section \<open>First match and injected chunks\<close>

lemma example_header_wf: "wf_header example_header"
  by (simp add: wf_header_def example_header_def pngHeader_def minimalIHDR_def fullIhdrSize_def
      headerSize_def ihdrSize_def)

lemma offer_isLarger_empty:
  assumes "is_candidate c" "RawCharaData h = []"
  shows "offer isLarger h (candidate_of c) =
     h\<lparr>RawCharaData := payload (candidate_of c), Revision := fst (candidate_of c)\<rparr>"
  using candidate_payload_length [OF assms(1)] assms(2)
  by (simp add: offer_def isLarger_def)

lemma Get_loop_First:
  assumes "\<not> deepScan (scanMode p)" "criteria (scanMode p) = isLarger"
    "RawCharaData (rawCard p) = []"
    "\<forall>d\<in>set pre. wf_chunk d \<and> (is_candidate d \<longrightarrow> payload (candidate_of d) = [])"
    "wf_chunk c" "is_candidate c" "payload (candidate_of c) \<noteq> []"
    "reader p = encode_chunks pre @ encode_chunk c @ rest"
  shows "Get_loop p =
     Inr ((rawCard p)\<lparr>Body := bodyBuffer p @ encode_chunks (opaque_chunks pre) @ rest,
            RawCharaData := payload (candidate_of c), Revision := fst (candidate_of c)\<rparr>)"
  using assms(1,2,3,4,8)
proof (induction pre arbitrary: p)
  case Nil
  have rd: "reader p = encode_chunk c @ rest"
    using Nil.prems(5) by (simp add: encode_chunks_Nil)
  have off: "offer (criteria (scanMode p)) (rawCard p) (candidate_of c) =
     (rawCard p)\<lparr>RawCharaData := payload (candidate_of c), Revision := fst (candidate_of c)\<rparr>"
    using Nil.prems(2,3) offer_isLarger_empty [OF assms(6)] by simp
  have "Get_loop p =
     Inr ((offer (criteria (scanMode p)) (rawCard p) (candidate_of c))\<lparr>Body := bodyBuffer p @ rest\<rparr>)"
    using Nil.prems(1) assms(7) off
    by (intro Get_loop_candidate_stop [OF assms(5,6) rd]) simp_all
  then show ?case
    by (simp add: off opaque_chunks_def encode_chunks_Nil)
next
  case (Cons d pre)
  have wf: "wf_chunk d" using Cons.prems(4) by simp
  have rd: "reader p = encode_chunk d @ (encode_chunks pre @ encode_chunk c @ rest)"
    using Cons.prems(5) by (simp add: encode_chunks_Cons)
  have pre: "\<forall>d\<in>set pre. wf_chunk d \<and> (is_candidate d \<longrightarrow> payload (candidate_of d) = [])"
    using Cons.prems(4) by simp
  show ?case
  proof (cases "ctype d = chunkTextTypeCode")
    case False
    let ?p' = "p\<lparr>reader := encode_chunks pre @ encode_chunk c @ rest,
                  bodyBuffer := bodyBuffer p @ encode_chunk d\<rparr>"
    have "Get_loop p = Get_loop ?p'" by (rule Get_loop_opaque [OF wf False rd])
    also have "\<dots> = Inr ((rawCard ?p')\<lparr>Body := bodyBuffer ?p' @ encode_chunks (opaque_chunks pre) @ rest,
            RawCharaData := payload (candidate_of c), Revision := fst (candidate_of c)\<rparr>)"
      using Cons.prems(1,2,3) pre by (intro Cons.IH) simp_all
    finally show ?thesis
      using False by (simp add: opaque_chunks_def encode_chunks_Cons)
  next
    case True
    show ?thesis
    proof (cases "is_candidate d")
      case False
      let ?p' = "p\<lparr>reader := encode_chunks pre @ encode_chunk c @ rest\<rparr>"
      have "Get_loop p = Get_loop ?p'" by (rule Get_loop_text_skip [OF wf True False rd])
      also have "\<dots> = Inr ((rawCard ?p')\<lparr>Body := bodyBuffer ?p' @ encode_chunks (opaque_chunks pre) @ rest,
            RawCharaData := payload (candidate_of c), Revision := fst (candidate_of c)\<rparr>)"
        using Cons.prems(1,2,3) pre by (intro Cons.IH) simp_all
      finally show ?thesis
        using True by (simp add: opaque_chunks_def)
    next
      case cand: True
      have emp: "payload (candidate_of d) = []" using Cons.prems(4) cand by simp
      have off: "offer (criteria (scanMode p)) (rawCard p) (candidate_of d) =
         (rawCard p)\<lparr>RawCharaData := [], Revision := fst (candidate_of d)\<rparr>"
        using Cons.prems(2,3) offer_isLarger_empty [OF cand] emp by simp
      let ?p' = "p\<lparr>reader := encode_chunks pre @ encode_chunk c @ rest,
           rawCard := offer (criteria (scanMode p)) (rawCard p) (candidate_of d)\<rparr>"
      have "Get_loop p = Get_loop ?p'"
        using off by (intro Get_loop_candidate_continue [OF wf cand rd]) simp
      also have "\<dots> = Inr ((rawCard ?p')\<lparr>Body := bodyBuffer ?p' @ encode_chunks (opaque_chunks pre) @ rest,
            RawCharaData := payload (candidate_of c), Revision := fst (candidate_of c)\<rparr>)"
        using Cons.prems(1,2,3) pre off by (intro Cons.IH) simp_all
      finally show ?thesis
        using True by (simp add: opaque_chunks_def off)
    qed
  qed
qed

lemma scan_First_first_nonempty:
  assumes "wf_header hdr"
    and "\<forall>d\<in>set pre. wf_chunk d \<and> (is_candidate d \<longrightarrow> payload (candidate_of d) = [])"
    and "wf_chunk c" and "is_candidate c" and "payload (candidate_of c) \<noteq> []"
  shows "scan First (hdr @ encode_chunks pre @ encode_chunk c @ rest) =
     Some (Inr \<lparr>Header = hdr, Body = encode_chunks (opaque_chunks pre) @ rest,
               RawCharaData = payload (candidate_of c), Revision = fst (candidate_of c)\<rparr>)"
proof -
  let ?p = "\<lparr>header = hdr, reader = encode_chunks pre @ encode_chunk c @ rest, scanMode = First,
     bodyBuffer = [], rawCard = \<lparr>Header = hdr, Body = [], RawCharaData = [], Revision = 0\<rparr>,
     err = None\<rparr>"
  have "Get_loop ?p =
     Inr ((rawCard ?p)\<lparr>Body := bodyBuffer ?p @ encode_chunks (opaque_chunks pre) @ rest,
            RawCharaData := payload (candidate_of c), Revision := fst (candidate_of c)\<rparr>)"
    using assms(2) by (intro Get_loop_First [OF _ _ _ _ assms(3,4,5)]) (simp_all add: First_def)
  then show ?thesis
    by (simp add: scan_wf_header [OF assms(1)])
qed


lemma keywords_at_V2: "keywords_at RevisionV2 = charaKeyword"
  by (simp add: keywords_at_def keywords_V2)

lemma keywords_at_V3: "keywords_at RevisionV3 = ccv3Keyword"
  by (simp add: keywords_at_def keywords_V3)

lemma RawCard_ToBytes_layout:
  assumes "RawCharaData rc \<noteq> []"
    and "keyword = (if keywords_map (RawCard.Revision rc) = None then charaKeyword
                    else keywords_at (RawCard.Revision rc))"
  shows "RawCard_ToBytes rc =
     Header rc @
     put_uint32 (of_nat (length keyword + length (RawCharaData rc))) @
     put_uint32 chunkTextTypeCode @ keyword @ RawCharaData rc @
     put_uint32 (crc32_ChecksumIEEE (put_uint32 chunkTextTypeCode @ keyword @ RawCharaData rc)) @
     Body rc"
  using assms
  by (simp add: RawCard_ToBytes_def ToImage_def streamCharaChunk_def Let_def keywords_at_V2
      crc_update_append crc32_ChecksumIEEE_def)


lemma isCharaChunk_chara: "isCharaChunk (charaKeyword @ d) = (RevisionV2, True)"
  by (simp add: isCharaChunk_def keywords_V2 bytes_HasPrefix_def charaKeyword_def)

lemma isCharaChunk_ccv3: "isCharaChunk (ccv3Keyword @ d) = (RevisionV3, True)"
  by (simp add: isCharaChunk_def keywords_V2 keywords_V3 bytes_HasPrefix_def charaKeyword_def
      ccv3Keyword_def)

lemma keyword_prefixes_exclusive:
  "\<not> (bytes_HasPrefix d charaKeyword \<and> bytes_HasPrefix d ccv3Keyword)"
proof
  assume h: "bytes_HasPrefix d charaKeyword \<and> bytes_HasPrefix d ccv3Keyword"
  have "length charaKeyword = 6" "length ccv3Keyword = 5"
    by (simp_all add: charaKeyword_def ccv3Keyword_def)
  with h have a: "take 6 d = charaKeyword" and b: "take 5 d = ccv3Keyword"
    by (simp_all add: bytes_HasPrefix_def)
  have "take 6 d ! 1 = d ! 1" "take 5 d ! 1 = d ! 1" by simp_all
  then have "charaKeyword ! 1 = ccv3Keyword ! 1" using a b by simp
  then show False by (simp add: charaKeyword_def ccv3Keyword_def)
qed

lemma isCharaChunk_range_order:
  "isCharaChunk_range [RevisionV3, RevisionV2] d = isCharaChunk_range [RevisionV2, RevisionV3] d"
  using keyword_prefixes_exclusive [of d]
  by (auto simp add: keywords_V2 keywords_V3)

lemma Revision_distinct: "RevisionV2 \<noteq> RevisionV3"
  by (simp add: RevisionV2_def RevisionV3_def)

lemma written_keyword_cases:
  "written_keyword revision = (if revision = RevisionV3 then ccv3Keyword else charaKeyword)"
  using Revision_distinct
  by (cases "revision = RevisionV2")
     (auto simp add: written_keyword_def keywords_at_V2 keywords_at_V3 keywords_V2 keywords_V3
       keywords_other)

lemma RawCard_ToBytes_chara_chunk:
  assumes "RawCharaData rc \<noteq> []"
  shows "RawCard_ToBytes rc =
     Header rc @ encode_chunk (chara_chunk (RawCard.Revision rc) (RawCharaData rc)) @ Body rc"
  using RawCard_ToBytes_layout [OF assms, of "written_keyword (RawCard.Revision rc)"]
  by (simp add: chara_chunk_def encode_chunk_def written_keyword_def keywords_at_V2)

lemma chara_chunk_is_candidate: "is_candidate (chara_chunk revision text)"
  by (simp add: chara_chunk_def written_keyword_cases is_candidate_def
      isCharaChunk_ccv3 isCharaChunk_chara)

lemma chara_chunk_candidate_of:
  "candidate_of (chara_chunk revision text) =
     (if revision = RevisionV3 then RevisionV3 else RevisionV2, written_keyword revision @ text)"
  by (simp add: chara_chunk_def written_keyword_cases candidate_of_def
      isCharaChunk_ccv3 isCharaChunk_chara)

lemma chara_chunk_revision:
  "fst (candidate_of (chara_chunk revision text)) =
     (if revision = RevisionV3 then RevisionV3 else RevisionV2)"
  by (simp add: chara_chunk_candidate_of)

lemma chara_chunk_payload: "payload (candidate_of (chara_chunk revision text)) = text"
  by (simp add: chara_chunk_candidate_of payload_def written_keyword_cases
      keywordsLength_at_V2 keywordsLength_at_V3 charaKeyword_def ccv3Keyword_def)

lemma chara_chunk_wf:
  "length text + 6 < 2 ^ 32 \<Longrightarrow> wf_chunk (chara_chunk revision text)"
  by (simp add: chara_chunk_def wf_chunk_def length_put_uint32 written_keyword_cases
      charaKeyword_def ccv3Keyword_def)

lemma rescan_injected:
  assumes "RawCharaData rc \<noteq> []" "wf_header (Header rc)" "length (RawCharaData rc) + 6 < 2 ^ 32"
  shows "scan First (RawCard_ToBytes rc) =
     Some (Inr \<lparr>Header = Header rc, Body = Body rc, RawCharaData = RawCharaData rc,
        Revision = (if RawCard.Revision rc = RevisionV3 then RevisionV3 else RevisionV2)\<rparr>)"
proof -
  let ?c = "chara_chunk (RawCard.Revision rc) (RawCharaData rc)"
  have "scan First (Header rc @ encode_chunks [] @ encode_chunk ?c @ Body rc) =
     Some (Inr \<lparr>Header = Header rc, Body = encode_chunks (opaque_chunks []) @ Body rc,
               RawCharaData = payload (candidate_of ?c), Revision = fst (candidate_of ?c)\<rparr>)"
    using assms(1)
    by (intro scan_First_first_nonempty [OF assms(2) _ chara_chunk_wf [OF assms(3)]
          chara_chunk_is_candidate])
       (simp_all add: chara_chunk_payload)
  then show ?thesis
    by (simp add: RawCard_ToBytes_chara_chunk [OF assms(1)] encode_chunks_Nil opaque_chunks_def
        chara_chunk_payload chara_chunk_revision)
qed

section \<open>Facts about the examples and the encoders\<close>

lemma v2_chunk_wf: "length text + 6 < 2 ^ 32 \<Longrightarrow> wf_chunk (v2_chunk text)"
  by (simp add: v2_chunk_def wf_chunk_def charaKeyword_def)

lemma v3_chunk_wf: "length text + 5 < 2 ^ 32 \<Longrightarrow> wf_chunk (v3_chunk text)"
  by (simp add: v3_chunk_def wf_chunk_def ccv3Keyword_def)

lemma iend_chunk_wf: "wf_chunk iend_chunk"
  by (simp add: iend_chunk_def wf_chunk_def)

lemma iend_chunk_opaque: "\<not> is_candidate iend_chunk"
  by (simp add: iend_chunk_def is_candidate_def chunkTextTypeCode_def)

lemma length_charaKeyword: "length charaKeyword = 6"
  by (simp add: charaKeyword_def)

lemma length_ccv3Keyword: "length ccv3Keyword = 5"
  by (simp add: ccv3Keyword_def)

lemma v2_chunk_candidate:
  "is_candidate (v2_chunk text)"
  "candidate_of (v2_chunk text) = (RevisionV2, charaKeyword @ text)"
  "payload (candidate_of (v2_chunk text)) = text"
  by (simp_all add: v2_chunk_def is_candidate_def candidate_of_def isCharaChunk_chara payload_def
      keywordsLength_at_V2 length_charaKeyword)

lemma v3_chunk_candidate:
  "is_candidate (v3_chunk text)"
  "candidate_of (v3_chunk text) = (RevisionV3, ccv3Keyword @ text)"
  "payload (candidate_of (v3_chunk text)) = text"
  by (simp_all add: v3_chunk_def is_candidate_def candidate_of_def isCharaChunk_ccv3 payload_def
      keywordsLength_at_V3 length_ccv3Keyword)

lemma base64_Encode_nonempty: "src \<noteq> [] \<Longrightarrow> base64_Encode src \<noteq> []"
  by (cases src rule: base64_Encode.cases) (simp_all add: Let_def)

text \<open>
  \<open>Encode\<close> fills exactly the \<open>EncodedLen\<close> bytes that \<open>ToRaw\<close> allocates.
\<close>

lemma length_base64_Encode: "length (base64_Encode src) = (length src + 2) div 3 * 4"
proof (induction src rule: base64_Encode.induct)
  case (1 a b c src)
  have "(length (a # b # c # src) + 2) div 3 = (length src + 2) div 3 + 1"
    by simp
  with 1 show ?case by (simp add: Let_def)
qed (simp_all add: Let_def)

lemma base64_Encode_example:
  "base64_Encode empty_json_object = [0x65, 0x33, 0x30, 0x3D]"
  by (simp add: empty_json_object_def encode_at_def encodeStd_def padChar_def)

lemma funpow8: "(f ^^ 8) x = f (f (f (f (f (f (f (f x)))))))"
  by (simp add: eval_nat_numeral)

text \<open>
  The CRC-32 of the model reproduces the one the repository's \<open>pngFooter\<close> holds for
  the \<open>IEND\<close> chunk.
\<close>

lemma crc_iend: "put_uint32 (crc32_ChecksumIEEE [0x49, 0x45, 0x4E, 0x44]) = ccrc iend_chunk"
proof -
  have n: "NOT (0::uint32) = 0xFFFFFFFF" by simp
  have s1: "crc_table (ucast (0xFFFFFFFF::uint32) XOR 0x49) XOR drop_bit 8 (0xFFFFFFFF::uint32) = 0x22FDE946"
    by (simp add: crc_table_def funpow8 crc_shift_def crc32_IEEE_def)
  have s2: "crc_table (ucast (0x22FDE946::uint32) XOR 0x45) XOR drop_bit 8 (0x22FDE946::uint32) = 0x992BAC53"
    by (simp add: crc_table_def funpow8 crc_shift_def crc32_IEEE_def)
  have s3: "crc_table (ucast (0x992BAC53::uint32) XOR 0x4E) XOR drop_bit 8 (0x992BAC53::uint32) = 0x639F4775"
    by (simp add: crc_table_def funpow8 crc_shift_def crc32_IEEE_def)
  have s4: "crc_table (ucast (0x639F4775::uint32) XOR 0x44) XOR drop_bit 8 (0x639F4775::uint32) = 0x51BD9F7D"
    by (simp add: crc_table_def funpow8 crc_shift_def crc32_IEEE_def)
  have "crc32_ChecksumIEEE [0x49, 0x45, 0x4E, 0x44] = NOT 0x51BD9F7D"
    by (simp only: crc32_ChecksumIEEE_def crc_update_def foldl.simps n s1 s2 s3 s4)
  then show ?thesis
    by (simp add: put_uint32_def iend_chunk_def)
qed

section \<open>Base64: decoding an encoded text\<close>

lemma mask6: "(0x3F :: 64 word) = mask 6"
  by (simp add: mask_eq_exp_minus_1)

lemma populate_decodeMap_other:
  "e \<notin> set encoder \<Longrightarrow> populate_decodeMap encoder i m e = m e"
  by (induction encoder i m rule: populate_decodeMap.induct) auto

lemma populate_decodeMap_nth:
  "distinct encoder \<Longrightarrow> k < length encoder \<Longrightarrow>
   populate_decodeMap encoder i m (encoder ! k) = of_nat (i + k)"
proof (induction encoder i m arbitrary: k rule: populate_decodeMap.induct)
  case (1 i m)
  then show ?case by simp
next
  case (2 e encoder i m)
  show ?case
  proof (cases k)
    case 0
    with 2(2) show ?thesis by (simp add: populate_decodeMap_other)
  next
    case (Suc k')
    have "populate_decodeMap encoder (Suc i) (m(e := of_nat i)) (encoder ! k') =
          of_nat (Suc i + k')"
      by (rule "2.IH") (use "2.prems" Suc in auto)
    with Suc show ?thesis by simp
  qed
qed

lemma length_encodeStd: "length encodeStd = 64"
  by (simp add: encodeStd_def)

lemma distinct_encodeStd: "distinct encodeStd"
  by (simp add: encodeStd_def)

lemma padChar_not_encodeStd: "padChar \<notin> set encodeStd"
  by (simp add: encodeStd_def padChar_def)

lemma decodeMap_padChar: "decodeMap padChar = 0xFF"
  by (simp add: decodeMap_def populate_decodeMap_other [OF padChar_not_encodeStd])

lemma unat_sextet: "unat (v AND (0x3F :: 64 word)) < 64"
proof -
  have "v AND mask 6 < 2 ^ 6" by (rule and_mask_less') simp
  then show ?thesis unfolding mask6 by (simp add: word_less_nat_alt)
qed

lemma decodeMap_encode_at: "decodeMap (encode_at v) = ucast (v AND 0x3F)"
  unfolding decodeMap_def encode_at_def
  using populate_decodeMap_nth [OF distinct_encodeStd, of "unat (v AND 0x3F)" 0] unat_sextet [of v]
  by (simp add: length_encodeStd)

lemma sextet_not_FF: "(ucast (v AND (0x3F :: 64 word)) :: byte) \<noteq> 0xFF"
proof
  assume "(ucast (v AND (0x3F :: 64 word)) :: byte) = 0xFF"
  then have "bit (ucast (v AND (mask 6 :: 64 word)) :: byte) 6 = bit (0xFF :: byte) 6"
    unfolding mask6 by simp
  then show False by (simp add: bit_simps)
qed

lemma decodeMap_encode_at_valid: "decodeMap (encode_at v) \<noteq> 0xFF"
  by (simp add: decodeMap_encode_at sextet_not_FF)

lemma sextet_back: "(ucast (ucast (x AND (0x3F :: 64 word)) :: byte) :: 64 word) = x AND 0x3F"
  unfolding mask6
  by (rule bit_word_eqI) (auto simp add: bit_simps)


lemma regroup3:
  fixes a b c :: byte
  defines "val \<equiv> (push_bit 16 (ucast a) OR push_bit 8 (ucast b) OR ucast c :: 64 word)"
  shows "push_bit 18 (drop_bit 18 val AND 0x3F) OR push_bit 12 (drop_bit 12 val AND 0x3F) OR
         push_bit 6 (drop_bit 6 val AND 0x3F) OR (val AND 0x3F) = val"
  unfolding mask6 val_def
  apply (rule bit_word_eqI)
  subgoal for n
    by (cases "n < 6"; cases "n < 12"; cases "n < 18"; cases "n < 24")
       (auto simp add: bit_simps dest: bit_imp_le_length)
  done

lemma regroup2:
  fixes a b :: byte
  defines "val \<equiv> (push_bit 16 (ucast a) OR push_bit 8 (ucast b) :: 64 word)"
  shows "push_bit 18 (drop_bit 18 val AND 0x3F) OR push_bit 12 (drop_bit 12 val AND 0x3F) OR
         push_bit 6 (drop_bit 6 val AND 0x3F) = val"
  unfolding mask6 val_def
  apply (rule bit_word_eqI)
  subgoal for n
    by (cases "n < 6"; cases "n < 12"; cases "n < 18"; cases "n < 24")
       (auto simp add: bit_simps dest: bit_imp_le_length)
  done

lemma regroup1:
  fixes a :: byte
  defines "val \<equiv> (push_bit 16 (ucast a) :: 64 word)"
  shows "push_bit 18 (drop_bit 18 val AND 0x3F) OR push_bit 12 (drop_bit 12 val AND 0x3F) = val"
  unfolding mask6 val_def
  apply (rule bit_word_eqI)
  subgoal for n
    by (cases "n < 6"; cases "n < 12"; cases "n < 18"; cases "n < 24")
       (auto simp add: bit_simps dest: bit_imp_le_length)
  done

lemma bytes_back3:
  fixes a b c :: byte
  defines "val \<equiv> (push_bit 16 (ucast a) OR push_bit 8 (ucast b) OR ucast c :: 64 word)"
  shows "(ucast (drop_bit 16 val) :: byte) = a" "(ucast (drop_bit 8 val) :: byte) = b"
    "(ucast val :: byte) = c"
  unfolding val_def
  by (rule bit_word_eqI, auto simp add: bit_simps dest: bit_imp_le_length)+

lemma bytes_back2:
  fixes a b :: byte
  defines "val \<equiv> (push_bit 16 (ucast a) OR push_bit 8 (ucast b) :: 64 word)"
  shows "(ucast (drop_bit 16 val) :: byte) = a" "(ucast (drop_bit 8 val) :: byte) = b"
  unfolding val_def
  by (rule bit_word_eqI, auto simp add: bit_simps dest: bit_imp_le_length)+

lemma bytes_back1:
  fixes a :: byte
  shows "(ucast (drop_bit 16 (push_bit 16 (ucast a) :: 64 word)) :: byte) = a"
  by (rule bit_word_eqI, auto simp add: bit_simps dest: bit_imp_le_length)

lemma quantum_bytes_4:
  "quantum_bytes [ucast (v1 AND (0x3F :: 64 word)), ucast (v2 AND (0x3F :: 64 word)),
                  ucast (v3 AND (0x3F :: 64 word)), ucast (v4 AND (0x3F :: 64 word))] =
   [ucast (drop_bit 16 (push_bit 18 (v1 AND 0x3F) OR push_bit 12 (v2 AND 0x3F) OR
                        push_bit 6 (v3 AND 0x3F) OR (v4 AND 0x3F))),
    ucast (drop_bit 8 (push_bit 18 (v1 AND 0x3F) OR push_bit 12 (v2 AND 0x3F) OR
                       push_bit 6 (v3 AND 0x3F) OR (v4 AND 0x3F))),
    ucast (push_bit 18 (v1 AND 0x3F) OR push_bit 12 (v2 AND 0x3F) OR
           push_bit 6 (v3 AND 0x3F) OR (v4 AND 0x3F))]"
  by (simp add: quantum_bytes_def sextet_back Let_def)

lemma quantum_bytes_3:
  "quantum_bytes [ucast (v1 AND (0x3F :: 64 word)), ucast (v2 AND (0x3F :: 64 word)),
                  ucast (v3 AND (0x3F :: 64 word))] =
   [ucast (drop_bit 16 (push_bit 18 (v1 AND 0x3F) OR push_bit 12 (v2 AND 0x3F) OR
                        push_bit 6 (v3 AND 0x3F))),
    ucast (drop_bit 8 (push_bit 18 (v1 AND 0x3F) OR push_bit 12 (v2 AND 0x3F) OR
                       push_bit 6 (v3 AND 0x3F)))]"
  by (simp add: quantum_bytes_def sextet_back Let_def)

lemma quantum_bytes_2:
  "quantum_bytes [ucast (v1 AND (0x3F :: 64 word)), ucast (v2 AND (0x3F :: 64 word))] =
   [ucast (drop_bit 16 (push_bit 18 (v1 AND 0x3F) OR push_bit 12 (v2 AND 0x3F)))]"
  by (simp add: quantum_bytes_def sextet_back Let_def)

lemma quantum_group3:
  fixes a b c :: byte
  defines "val \<equiv> (push_bit 16 (ucast a) OR push_bit 8 (ucast b) OR ucast c :: 64 word)"
  shows "quantum_bytes [ucast (drop_bit 18 val AND 0x3F), ucast (drop_bit 12 val AND 0x3F),
                        ucast (drop_bit 6 val AND 0x3F), ucast (val AND 0x3F)] = [a, b, c]"
  unfolding val_def by (simp only: quantum_bytes_4 regroup3 bytes_back3)

lemma quantum_group2:
  fixes a b :: byte
  defines "val \<equiv> (push_bit 16 (ucast a) OR push_bit 8 (ucast b) :: 64 word)"
  shows "quantum_bytes [ucast (drop_bit 18 val AND 0x3F), ucast (drop_bit 12 val AND 0x3F),
                        ucast (drop_bit 6 val AND 0x3F)] = [a, b]"
  unfolding val_def by (simp only: quantum_bytes_3 regroup2 bytes_back2)

lemma quantum_group1:
  fixes a :: byte
  defines "val \<equiv> (push_bit 16 (ucast a) :: 64 word)"
  shows "quantum_bytes [ucast (drop_bit 18 val AND 0x3F), ucast (drop_bit 12 val AND 0x3F)] = [a]"
  unfolding val_def by (simp only: quantum_bytes_2 regroup1 bytes_back1)

lemma decodeQuantum_full:
  "length dbuf = 4 \<Longrightarrow> decodeQuantum src si dbuf = (src, si, quantum_bytes dbuf, None)"
  by (cases src) simp_all

lemma decodeQuantum_valid:
  "length dbuf < 4 \<Longrightarrow>
   decodeQuantum (encode_at v # src) si dbuf =
   decodeQuantum src (Suc si) (dbuf @ [ucast (v AND 0x3F)])"
  using decodeMap_encode_at_valid [of v] by (simp add: decodeMap_encode_at)

lemma padChar_not_newline: "padChar \<noteq> 0x0A" "padChar \<noteq> 0x0D"
  by (simp_all add: padChar_def)

lemma decodeQuantum_pad3:
  "length dbuf = 3 \<Longrightarrow> decodeQuantum [padChar] si dbuf = ([], Suc si, quantum_bytes dbuf, None)"
  by (simp add: decodeMap_padChar padChar_not_newline trailing_garbage_def)

lemma decodeQuantum_pad2:
  "length dbuf = 2 \<Longrightarrow>
   decodeQuantum [padChar, padChar] si dbuf = ([], Suc (Suc si), quantum_bytes dbuf, None)"
  by (simp add: decodeMap_padChar padChar_not_newline trailing_garbage_def)

declare decodeQuantum.simps [simp del]

lemma decodeQuantum_group4:
  "decodeQuantum (encode_at v1 # encode_at v2 # encode_at v3 # encode_at v4 # src) si [] =
   (src, Suc (Suc (Suc (Suc si))),
    quantum_bytes [ucast (v1 AND 0x3F), ucast (v2 AND 0x3F), ucast (v3 AND 0x3F),
                   ucast (v4 AND 0x3F)], None)"
  by (simp add: decodeQuantum_valid decodeQuantum_full)

lemma decodeQuantum_group3:
  "decodeQuantum [encode_at v1, encode_at v2, encode_at v3, padChar] si [] =
   ([], Suc (Suc (Suc (Suc si))),
    quantum_bytes [ucast (v1 AND 0x3F), ucast (v2 AND 0x3F), ucast (v3 AND 0x3F)], None)"
  by (simp add: decodeQuantum_valid decodeQuantum_pad3)

lemma decodeQuantum_group2:
  "decodeQuantum [encode_at v1, encode_at v2, padChar, padChar] si [] =
   ([], Suc (Suc (Suc (Suc si))),
    quantum_bytes [ucast (v1 AND 0x3F), ucast (v2 AND 0x3F)], None)"
  by (simp add: decodeQuantum_valid decodeQuantum_pad2)

lemma base64_Decode_loop_Nil: "base64_Decode_loop [] si dst = Inr dst"
  by (subst base64_Decode_loop.simps) simp

lemma base64_Decode_loop_group4:
  "base64_Decode_loop (encode_at v1 # encode_at v2 # encode_at v3 # encode_at v4 # src) si dst =
   base64_Decode_loop src (Suc (Suc (Suc (Suc si))))
     (dst @ quantum_bytes [ucast (v1 AND 0x3F), ucast (v2 AND 0x3F), ucast (v3 AND 0x3F),
                           ucast (v4 AND 0x3F)])"
  by (subst base64_Decode_loop.simps)
     (simp only: decodeQuantum_group4 list.simps if_False prod.case option.case)

lemma base64_Decode_loop_group3:
  "base64_Decode_loop [encode_at v1, encode_at v2, encode_at v3, padChar] si dst =
   Inr (dst @ quantum_bytes [ucast (v1 AND 0x3F), ucast (v2 AND 0x3F), ucast (v3 AND 0x3F)])"
  by (subst base64_Decode_loop.simps)
     (simp only: decodeQuantum_group3 list.simps if_False prod.case option.case
        base64_Decode_loop_Nil)

lemma base64_Decode_loop_group2:
  "base64_Decode_loop [encode_at v1, encode_at v2, padChar, padChar] si dst =
   Inr (dst @ quantum_bytes [ucast (v1 AND 0x3F), ucast (v2 AND 0x3F)])"
  by (subst base64_Decode_loop.simps)
     (simp only: decodeQuantum_group2 list.simps if_False prod.case option.case
        base64_Decode_loop_Nil)

lemma base64_Decode_loop_Encode:
  "base64_Decode_loop (base64_Encode src) si dst = Inr (dst @ src)"
proof (induction src arbitrary: si dst rule: base64_Encode.induct)
  case (1 a b c src)
  have "dst @ a # b # c # src = (dst @ [a, b, c]) @ src" by simp
  then show ?case
    by (simp only: base64_Encode.simps Let_def append_Cons append_Nil
        base64_Decode_loop_group4 quantum_group3 1)
next
  case (2 a b)
  show ?case
    by (simp only: base64_Encode.simps Let_def base64_Decode_loop_group3 quantum_group2)
next
  case (3 a)
  show ?case
    by (simp only: base64_Encode.simps Let_def base64_Decode_loop_group2 quantum_group1)
next
  case 4
  show ?case by (simp add: base64_Decode_loop_Nil)
qed

lemma base64_Decode_Encode: "base64_Decode (base64_Encode src) = Inr src"
  by (simp add: base64_Decode_def base64_Decode_loop_Encode)
     (cases src rule: base64_Encode.cases; simp add: Let_def)


section \<open>Stamps and default sheets\<close>

lemma Stamps_at_V2: "Stamps_at RevisionV2 = \<lparr>Stamp.Spec = SpecV2, Stamp.Version = V2, Stamp.Revision = RevisionV2\<rparr>"
  by (simp add: Stamps_at_def Stamps_def RevisionV2_def RevisionV3_def)

lemma Stamps_at_V3: "Stamps_at RevisionV3 = \<lparr>Stamp.Spec = SpecV3, Stamp.Version = V3, Stamp.Revision = RevisionV3\<rparr>"
  by (simp add: Stamps_at_def Stamps_def RevisionV2_def RevisionV3_def)

lemma Stamps_at_other:
  "revision \<noteq> RevisionV2 \<Longrightarrow> revision \<noteq> RevisionV3 \<Longrightarrow>
   Stamps_at revision = \<lparr>Stamp.Spec = [], Stamp.Version = [], Stamp.Revision = 0\<rparr>"
  by (simp add: Stamps_at_def Stamps_def)

lemma DefaultSheet_V2:
  "DefaultSheet RevisionV2 =
     \<lparr>Sheet.Spec = SpecV2, Sheet.Version = V2, Sheet.Revision = RevisionV2, Content = default\<rparr>"
  by (simp add: DefaultSheet_def SetRevision_def Stamps_at_V2)

lemma DefaultSheet_V3:
  "DefaultSheet RevisionV3 =
     \<lparr>Sheet.Spec = SpecV3, Sheet.Version = V3, Sheet.Revision = RevisionV3, Content = default\<rparr>"
  by (simp add: DefaultSheet_def SetRevision_def Stamps_at_V3)

section \<open>Injection\<close>

text \<open>
  C8. A card with empty \<open>RawCharaData\<close> serialises to exactly \<open>Header || Body\<close>: no
  chunk is synthesised.
\<close>

theorem ToBytes_empty_payload:
  "RawCharaData rc = [] \<Longrightarrow> RawCard_ToBytes rc = Header rc @ Body rc"
  by (simp add: RawCard_ToBytes_def ToImage_def streamCharaChunk_def)

theorem ToBytes_empty_payload_witness:
  "RawCharaData \<lparr>Header = [1, 2], Body = [3], RawCharaData = [], Revision = 3\<rparr> = []
   \<and> RawCard_ToBytes \<lparr>Header = [1, 2], Body = [3], RawCharaData = [], Revision = 3\<rparr> = [1, 2, 3]"
  using ToBytes_empty_payload [of "\<lparr>Header = [1, 2], Body = [3], RawCharaData = [], Revision = 3\<rparr>"]
  by simp

text \<open>
  C4. For a card with non-empty \<open>RawCharaData\<close>, \<open>ToImage\<close> writes, between \<open>Header\<close>
  and \<open>Body\<close>, exactly: the big-endian \<open>uint32\<close> of \<open>len(keyword) + len(RawCharaData)\<close>,
  the \<open>tEXt\<close> type code, the keyword, the payload, and the big-endian CRC-32 (IEEE) of
  \<open>typeCode || keyword || RawCharaData\<close> (the length field is not part of the CRC input).
  The keyword is that of revision 3 for a revision-3 card and that of revision 2
  otherwise; the length field reads back as the sum whenever the sum fits 32 bits.
\<close>

theorem ToBytes_chunk_layout:
  assumes "RawCharaData rc \<noteq> []"
  shows "RawCard_ToBytes rc =
       Header rc @
       put_uint32 (of_nat (length (written_keyword (RawCard.Revision rc)) + length (RawCharaData rc))) @
       put_uint32 chunkTextTypeCode @
       written_keyword (RawCard.Revision rc) @
       RawCharaData rc @
       put_uint32 (crc32_ChecksumIEEE
         (put_uint32 chunkTextTypeCode @ written_keyword (RawCard.Revision rc) @ RawCharaData rc)) @
       Body rc
     \<and> written_keyword (RawCard.Revision rc) =
         (if RawCard.Revision rc = RevisionV3 then ccv3Keyword else charaKeyword)
     \<and> (length (written_keyword (RawCard.Revision rc)) + length (RawCharaData rc) < 2 ^ 32 \<longrightarrow>
         unat (be_uint32 (put_uint32
           (of_nat (length (written_keyword (RawCard.Revision rc)) + length (RawCharaData rc))))) =
         length (written_keyword (RawCard.Revision rc)) + length (RawCharaData rc))"
proof -
  have "written_keyword (RawCard.Revision rc) =
     (if keywords_map (RawCard.Revision rc) = None then charaKeyword
      else keywords_at (RawCard.Revision rc))"
    by (simp add: written_keyword_def keywords_at_V2)
  from RawCard_ToBytes_layout [OF assms this] show ?thesis
    by (simp add: written_keyword_cases be_uint32_put_uint32 of_nat_inverse)
qed

theorem ToBytes_chunk_layout_witness:
  "RawCharaData \<lparr>Header = example_header, Body = encode_chunk iend_chunk,
       RawCharaData = [0x65, 0x33, 0x30, 0x3D], Revision = RevisionV3\<rparr> \<noteq> [] \<and>
   RawCard_ToBytes \<lparr>Header = example_header, Body = encode_chunk iend_chunk,
       RawCharaData = [0x65, 0x33, 0x30, 0x3D], Revision = RevisionV3\<rparr> =
     example_header @ put_uint32 9 @ put_uint32 chunkTextTypeCode @ ccv3Keyword @
     [0x65, 0x33, 0x30, 0x3D] @
     put_uint32 (crc32_ChecksumIEEE
       (put_uint32 chunkTextTypeCode @ ccv3Keyword @ [0x65, 0x33, 0x30, 0x3D])) @
     encode_chunk iend_chunk"
  using ToBytes_chunk_layout [of "\<lparr>Header = example_header, Body = encode_chunk iend_chunk,
       RawCharaData = [0x65, 0x33, 0x30, 0x3D], Revision = RevisionV3\<rparr>"]
  by (simp add: ccv3Keyword_def)

text \<open>
  C7. For a card whose revision is neither 2 nor 3, with non-empty \<open>RawCharaData\<close>,
  \<open>ToImage\<close> writes the chunk with the revision-2 keyword; when the header is
  well-formed and the payload fits a chunk, a scan of the bytes written returns the same
  card with revision 2 in place of the unknown revision.
\<close>

theorem unknown_revision_fallback:
  assumes "RawCharaData rc \<noteq> []"
    and "RawCard.Revision rc \<noteq> RevisionV2" and "RawCard.Revision rc \<noteq> RevisionV3"
  shows "RawCard_ToBytes rc =
       Header rc @ encode_chunk (chara_chunk RevisionV2 (RawCharaData rc)) @ Body rc
     \<and> written_keyword RevisionV2 = charaKeyword
     \<and> (wf_header (Header rc) \<and> length (RawCharaData rc) + 6 < 2 ^ 32 \<longrightarrow>
          scan First (RawCard_ToBytes rc) = Some (Inr (rc\<lparr>Revision := RevisionV2\<rparr>)))"
proof -
  have "chara_chunk (RawCard.Revision rc) (RawCharaData rc) = chara_chunk RevisionV2 (RawCharaData rc)"
    using assms(2,3) Revision_distinct by (simp add: chara_chunk_def written_keyword_cases)
  moreover have "scan First (RawCard_ToBytes rc) = Some (Inr (rc\<lparr>Revision := RevisionV2\<rparr>))"
    if "wf_header (Header rc)" "length (RawCharaData rc) + 6 < 2 ^ 32"
    using rescan_injected [OF assms(1) that] assms(3) by simp
  ultimately show ?thesis
    using RawCard_ToBytes_chara_chunk [OF assms(1)] Revision_distinct
    by (simp add: written_keyword_cases)
qed

theorem unknown_revision_fallback_witness:
  "RawCharaData \<lparr>Header = example_header, Body = encode_chunk iend_chunk,
       RawCharaData = [0x65, 0x33, 0x30, 0x3D], Revision = 100\<rparr> \<noteq> [] \<and>
   wf_header example_header \<and>
   scan First (RawCard_ToBytes \<lparr>Header = example_header, Body = encode_chunk iend_chunk,
       RawCharaData = [0x65, 0x33, 0x30, 0x3D], Revision = 100\<rparr>) =
     Some (Inr \<lparr>Header = example_header, Body = encode_chunk iend_chunk,
       RawCharaData = [0x65, 0x33, 0x30, 0x3D], Revision = RevisionV2\<rparr>)"
proof -
  let ?rc = "\<lparr>Header = example_header, Body = encode_chunk iend_chunk,
       RawCharaData = [0x65, 0x33, 0x30, 0x3D], Revision = 100\<rparr> :: RawCard"
  have a: "RawCharaData ?rc \<noteq> []" by simp
  have b: "RawCard.Revision ?rc \<noteq> RevisionV2" "RawCard.Revision ?rc \<noteq> RevisionV3"
    by (simp_all add: RevisionV2_def RevisionV3_def)
  have c: "wf_header (Header ?rc)" using example_header_wf by simp
  have d: "length (RawCharaData ?rc) + 6 < 2 ^ 32" by simp
  from unknown_revision_fallback [OF a b] c d
  have "scan First (RawCard_ToBytes ?rc) = Some (Inr (?rc\<lparr>Revision := RevisionV2\<rparr>))"
    by blast
  then show ?thesis using example_header_wf by simp
qed

section \<open>The first-match policy\<close>

text \<open>
  The first payload chunk of \<open>empty_first_stream\<close> is a revision-2 chunk whose payload
  is empty; under \<open>First\<close> the scan goes on and returns the revision-3 chunk behind it.
\<close>

theorem First_second_candidate_counterexample:
  "is_candidate (v2_chunk []) \<and> candidate_of (v2_chunk []) = (RevisionV2, charaKeyword) \<and>
   scan First empty_first_stream =
     Some (Inr \<lparr>Header = example_header, Body = encode_chunk iend_chunk,
                RawCharaData = [0x65, 0x33, 0x30, 0x3D], Revision = RevisionV3\<rparr>)"
  by code_simp

text \<open>
  C3. Under \<open>First\<close>, for a well-formed header followed by well-formed chunks among
  which every payload chunk has an empty payload, then a payload chunk with a non-empty
  payload, then any bytes at all: \<open>Get\<close> returns the payload and revision of that
  chunk, whatever follows, and \<open>Body\<close> is the opaque chunks before it followed by the
  rest of the input, byte for byte.
\<close>

theorem First_returns_first_nonempty:
  assumes "wf_header hdr"
    and "\<forall>d\<in>set pre. wf_chunk d \<and> (is_candidate d \<longrightarrow> payload (candidate_of d) = [])"
    and "wf_chunk c" and "is_candidate c" and "payload (candidate_of c) \<noteq> []"
  shows "scan First (hdr @ encode_chunks pre @ encode_chunk c @ rest) =
     Some (Inr \<lparr>Header = hdr, Body = encode_chunks (opaque_chunks pre) @ rest,
               RawCharaData = payload (candidate_of c), Revision = fst (candidate_of c)\<rparr>)"
  using assms by (rule scan_First_first_nonempty)

theorem First_returns_first_nonempty_witness:
  "wf_header example_header \<and>
   wf_chunk iend_chunk \<and> \<not> is_candidate iend_chunk \<and>
   wf_chunk (v2_chunk []) \<and> payload (candidate_of (v2_chunk [])) = [] \<and>
   wf_chunk (v3_chunk [0x65, 0x33, 0x30, 0x3D]) \<and>
   is_candidate (v3_chunk [0x65, 0x33, 0x30, 0x3D]) \<and>
   payload (candidate_of (v3_chunk [0x65, 0x33, 0x30, 0x3D])) \<noteq> [] \<and>
   scan First (example_header @ encode_chunks [iend_chunk, v2_chunk []] @
       encode_chunk (v3_chunk [0x65, 0x33, 0x30, 0x3D]) @ [0, 0, 0, 1, 2]) =
     Some (Inr \<lparr>Header = example_header,
               Body = encode_chunks (opaque_chunks [iend_chunk, v2_chunk []]) @ [0, 0, 0, 1, 2],
               RawCharaData = payload (candidate_of (v3_chunk [0x65, 0x33, 0x30, 0x3D])),
               Revision = fst (candidate_of (v3_chunk [0x65, 0x33, 0x30, 0x3D]))\<rparr>)"
proof -
  have a: "wf_chunk iend_chunk" "\<not> is_candidate iend_chunk"
    "wf_chunk (v2_chunk [])" "payload (candidate_of (v2_chunk [])) = []"
    by (simp_all add: iend_chunk_wf v2_chunk_wf v2_chunk_candidate(3) iend_chunk_opaque)
  then have b: "\<forall>d\<in>set [iend_chunk, v2_chunk []].
      wf_chunk d \<and> (is_candidate d \<longrightarrow> payload (candidate_of d) = [])"
    by simp
  have c: "wf_chunk (v3_chunk [0x65, 0x33, 0x30, 0x3D])"
    by (simp add: v3_chunk_wf)
  have d: "is_candidate (v3_chunk [0x65, 0x33, 0x30, 0x3D])"
    by (rule v3_chunk_candidate(1))
  have e: "payload (candidate_of (v3_chunk [0x65, 0x33, 0x30, 0x3D])) \<noteq> []"
    by (simp add: v3_chunk_candidate(3))
  from First_returns_first_nonempty [OF example_header_wf b c d e] example_header_wf a c d e
  show ?thesis by (intro conjI)
qed

section \<open>Truncated chunks\<close>

text \<open>
  A chunk that is not a text chunk and announces more bytes than are left ends the scan
  without error, under every policy: what is left goes to \<open>Body\<close>. A text chunk whose
  content is there in part ends it with \<open>io.ErrUnexpectedEOF\<close>.
\<close>

lemma truncated_opaque_chunk_accepted:
  assumes "wf_header hdr" and "typeCode \<noteq> chunkTextTypeCode" and "length rest < unat len + 4"
  shows "scan mode (hdr @ put_uint32 len @ put_uint32 typeCode @ rest) =
     Some (Inr \<lparr>Header = hdr, Body = put_uint32 len @ put_uint32 typeCode @ rest,
               RawCharaData = [], Revision = 0\<rparr>)"
  using assms(2,3)
  by (simp add: scan_wf_header [OF assms(1)])
     (subst Get_loop.simps,
      simp add: processChunk_def binary_Read_put_uint32 streamCopyChunk_def io_CopyN_def)

lemma truncated_text_chunk_rejected:
  assumes "wf_header hdr" and "rest \<noteq> []" and "length rest < unat len"
  shows "scan mode (hdr @ put_uint32 len @ put_uint32 chunkTextTypeCode @ rest) =
     Some (Inl ErrUnexpectedEOF)"
  using assms(2,3)
  by (simp add: scan_wf_header [OF assms(1)])
     (subst Get_loop.simps,
      simp add: processChunk_def binary_Read_put_uint32 io_ReadFull_def)

text \<open>
  C9. The last chunk of \<open>truncated_stream\<close> is an \<open>IDAT\<close> chunk whose header announces
  five bytes of content, with two bytes left in the stream. \<open>Get\<close> returns no error: it
  returns a card whose \<open>Body\<close> holds the chunk header and the two bytes.
\<close>

theorem truncated_chunk_no_error:
  "scan First truncated_stream =
     Some (Inr \<lparr>Header = example_header, Body = [0, 0, 0, 5, 0x49, 0x44, 0x41, 0x54, 1, 2],
                RawCharaData = [], Revision = 0\<rparr>)"
  by code_simp

section \<open>Decoded to structured\<close>

text \<open>
  A card that holds revision 3 and no JSON data gets the default sheet of revision 2,
  which is not the default sheet of revision 3.
\<close>

theorem ToCharacter_empty_V3_counterexample:
  "ToCharacter reject_json
      \<lparr>Header = example_header, Body = [], RawJsonData = [], RawJsonCard.Revision = RevisionV3\<rparr> =
     Inr \<lparr>Header = example_header, Body = [],
          Sheet = Some \<lparr>Sheet.Spec = SpecV2, Sheet.Version = V2, Sheet.Revision = RevisionV2,
                        Content = ()\<rparr>\<rparr> \<and>
   (DefaultSheet RevisionV3 :: unit Sheet) =
     \<lparr>Sheet.Spec = SpecV3, Sheet.Version = V3, Sheet.Revision = RevisionV3, Content = ()\<rparr> \<and>
   RevisionV2 \<noteq> RevisionV3 \<and> SpecV2 \<noteq> SpecV3"
  by (simp add: ToCharacter_def DefaultSheet_V2 DefaultSheet_V3 Revision_distinct SpecV2_def
      SpecV3_def)

text \<open>
  C2. For a card whose \<open>RawJsonData\<close> is empty, \<open>ToCharacter\<close> succeeds and returns a
  card with a sheet (not nil): \<open>DefaultSheet(RevisionV2)\<close>, the sheet with the spec, the
  version and the revision of revision 2 and the zero content, whatever revision the card
  holds.
\<close>

theorem ToCharacter_empty_default_V2:
  assumes "RawJsonData rjc = []"
  shows "ToCharacter character_FromBytes rjc =
       Inr \<lparr>Header = Header rjc, Body = Body rjc, Sheet = Some (DefaultSheet RevisionV2)\<rparr>
     \<and> DefaultSheet RevisionV2 =
       \<lparr>Sheet.Spec = SpecV2, Sheet.Version = V2, Sheet.Revision = RevisionV2,
        Content = (default :: 'c::default)\<rparr>"
  using assms by (simp add: ToCharacter_def DefaultSheet_V2)

theorem ToCharacter_empty_default_V2_witness:
  "RawJsonData \<lparr>Header = example_header, Body = [], RawJsonData = [],
       RawJsonCard.Revision = RevisionV3\<rparr> = [] \<and>
   ToCharacter reject_json
      \<lparr>Header = example_header, Body = [], RawJsonData = [], RawJsonCard.Revision = RevisionV3\<rparr> =
     Inr \<lparr>Header = example_header, Body = [],
          Sheet = Some \<lparr>Sheet.Spec = SpecV2, Sheet.Version = V2, Sheet.Revision = RevisionV2,
                        Content = ()\<rparr>\<rparr>"
  using ToCharacter_empty_default_V2 [where 'c = unit and character_FromBytes = reject_json
      and rjc = "\<lparr>Header = example_header, Body = [], RawJsonData = [],
       RawJsonCard.Revision = RevisionV3\<rparr>"]
  by simp

text \<open>
  C10. When \<open>ToCharacter\<close> decodes non-empty \<open>RawJsonData\<close>, the sheet returned is the
  decoded one with \<open>Revision\<close> set to the revision the card holds and \<open>Spec\<close> and
  \<open>Version\<close> set to the stamp of that revision, whatever the JSON declared; for a held
  revision outside \<open>Stamps\<close> the spec and the version are empty.
\<close>

theorem ToCharacter_stamps_held_revision:
  assumes "RawJsonData rjc \<noteq> []" and "character_FromBytes (RawJsonData rjc) = Inr sheet"
  shows "\<exists>s. ToCharacter character_FromBytes rjc =
         Inr \<lparr>Header = Header rjc, Body = Body rjc, Sheet = Some s\<rparr> \<and>
       Sheet.Revision s = RawJsonCard.Revision rjc \<and>
       Sheet.Spec s = Stamp.Spec (Stamps_at (RawJsonCard.Revision rjc)) \<and>
       Sheet.Version s = Stamp.Version (Stamps_at (RawJsonCard.Revision rjc)) \<and>
       Content s = Content sheet \<and>
       (RawJsonCard.Revision rjc = RevisionV2 \<longrightarrow> Sheet.Spec s = SpecV2 \<and> Sheet.Version s = V2) \<and>
       (RawJsonCard.Revision rjc = RevisionV3 \<longrightarrow> Sheet.Spec s = SpecV3 \<and> Sheet.Version s = V3) \<and>
       (RawJsonCard.Revision rjc \<noteq> RevisionV2 \<and> RawJsonCard.Revision rjc \<noteq> RevisionV3 \<longrightarrow>
          Sheet.Spec s = [] \<and> Sheet.Version s = [])"
proof -
  let ?s = "sheet\<lparr>Sheet.Revision := RawJsonCard.Revision rjc,
                   Sheet.Spec := Stamp.Spec (Stamps_at (RawJsonCard.Revision rjc)),
                   Sheet.Version := Stamp.Version (Stamps_at (RawJsonCard.Revision rjc))\<rparr>"
  have "ToCharacter character_FromBytes rjc =
         Inr \<lparr>Header = Header rjc, Body = Body rjc, Sheet = Some ?s\<rparr>"
    using assms by (simp add: ToCharacter_def Let_def)
  then show ?thesis
    using Stamps_at_V2 Stamps_at_V3 Stamps_at_other [of "RawJsonCard.Revision rjc"]
    by (intro exI [of _ ?s]) auto
qed

theorem ToCharacter_stamps_held_revision_witness:
  "RawJsonData \<lparr>Header = example_header, Body = [], RawJsonData = empty_json_object,
       RawJsonCard.Revision = RevisionV3\<rparr> \<noteq> [] \<and>
   decode_as (example_sheet RevisionV2) empty_json_object = Inr (example_sheet RevisionV2) \<and>
   example_sheet RevisionV2 =
     \<lparr>Sheet.Spec = SpecV2, Sheet.Version = V2, Sheet.Revision = RevisionV2, Content = ()\<rparr> \<and>
   ToCharacter (decode_as (example_sheet RevisionV2))
       \<lparr>Header = example_header, Body = [], RawJsonData = empty_json_object,
         RawJsonCard.Revision = RevisionV3\<rparr> =
     Inr \<lparr>Header = example_header, Body = [],
          Sheet = Some \<lparr>Sheet.Spec = SpecV3, Sheet.Version = V3, Sheet.Revision = RevisionV3,
                        Content = ()\<rparr>\<rparr> \<and>
   ToCharacter (decode_as (example_sheet RevisionV2))
       \<lparr>Header = example_header, Body = [], RawJsonData = empty_json_object,
         RawJsonCard.Revision = 7\<rparr> =
     Inr \<lparr>Header = example_header, Body = [],
          Sheet = Some \<lparr>Sheet.Spec = [], Sheet.Version = [], Sheet.Revision = 7,
                        Content = ()\<rparr>\<rparr>"
proof -
  let ?rjc = "\<lparr>Header = example_header, Body = [], RawJsonData = empty_json_object,
       RawJsonCard.Revision = RevisionV3\<rparr> :: RawJsonCard"
  let ?rjc7 = "\<lparr>Header = example_header, Body = [], RawJsonData = empty_json_object,
       RawJsonCard.Revision = 7\<rparr> :: RawJsonCard"
  have a: "RawJsonData ?rjc \<noteq> []" by (simp add: empty_json_object_def)
  have b: "decode_as (example_sheet RevisionV2) (RawJsonData ?rjc) = Inr (example_sheet RevisionV2)"
    by (simp add: decode_as_def)
  have a7: "RawJsonData ?rjc7 \<noteq> []" by (simp add: empty_json_object_def)
  have b7: "decode_as (example_sheet RevisionV2) (RawJsonData ?rjc7) = Inr (example_sheet RevisionV2)"
    by (simp add: decode_as_def)
  have c: "example_sheet RevisionV2 =
     \<lparr>Sheet.Spec = SpecV2, Sheet.Version = V2, Sheet.Revision = RevisionV2, Content = ()\<rparr>"
    by (simp add: example_sheet_def DefaultSheet_V2)
  from ToCharacter_stamps_held_revision
    [where character_FromBytes = "decode_as (example_sheet RevisionV2)", OF a b]
  obtain s where s: "ToCharacter (decode_as (example_sheet RevisionV2)) ?rjc =
         Inr \<lparr>Header = example_header, Body = [], Sheet = Some s\<rparr>"
       "Sheet.Revision s = RevisionV3" "Sheet.Spec s = SpecV3" "Sheet.Version s = V3"
    by auto
  have "s = \<lparr>Sheet.Spec = SpecV3, Sheet.Version = V3, Sheet.Revision = RevisionV3, Content = ()\<rparr>"
    using s(2,3,4) by (cases s) simp
  with s(1) have r3: "ToCharacter (decode_as (example_sheet RevisionV2)) ?rjc =
     Inr \<lparr>Header = example_header, Body = [],
          Sheet = Some \<lparr>Sheet.Spec = SpecV3, Sheet.Version = V3, Sheet.Revision = RevisionV3,
                        Content = ()\<rparr>\<rparr>"
    by simp
  have out: "(7 :: Revision) \<noteq> RevisionV2 \<and> 7 \<noteq> RevisionV3"
    by (simp add: RevisionV2_def RevisionV3_def)
  from ToCharacter_stamps_held_revision
    [where character_FromBytes = "decode_as (example_sheet RevisionV2)", OF a7 b7] out
  obtain t where t: "ToCharacter (decode_as (example_sheet RevisionV2)) ?rjc7 =
         Inr \<lparr>Header = example_header, Body = [], Sheet = Some t\<rparr>"
       "Sheet.Revision t = 7" "Sheet.Spec t = []" "Sheet.Version t = []"
    by auto
  have "t = \<lparr>Sheet.Spec = [], Sheet.Version = [], Sheet.Revision = 7, Content = ()\<rparr>"
    using t(2,3,4) by (cases t) simp
  with t(1) have r7: "ToCharacter (decode_as (example_sheet RevisionV2)) ?rjc7 =
     Inr \<lparr>Header = example_header, Body = [],
          Sheet = Some \<lparr>Sheet.Spec = [], Sheet.Version = [], Sheet.Revision = 7,
                        Content = ()\<rparr>\<rparr>"
    by simp
  from a b c r3 r7 show ?thesis by simp
qed

section \<open>Deep-scan policies\<close>

text \<open>
  The deep scans in terms of the scanner's candidates, and the candidates of a stream as
  its recognised payload chunks.
\<close>

lemma scan_LastLongest_candidates:
  assumes "wf_header hdr" and "\<forall>c\<in>set cs. wf_chunk c"
  shows "\<exists>card. scan LastLongest (hdr @ encode_chunks cs) = Some (Inr card) \<and>
     Header card = hdr \<and> Body card = encode_chunks (opaque_chunks cs) \<and>
     (candidates cs = [] \<longrightarrow> RawCharaData card = [] \<and> RawCard.Revision card = 0) \<and>
     (candidates cs \<noteq> [] \<longrightarrow>
        (\<exists>i. last_maximal (\<lambda>x. length (payload x)) (candidates cs) i \<and>
             RawCharaData card = payload (candidates cs ! i) \<and>
             RawCard.Revision card = fst (candidates cs ! i)))"
proof -
  let ?h0 = "\<lparr>Header = hdr, Body = [], RawCharaData = [], Revision = 0\<rparr> :: RawCard"
  let ?sel = "foldl (offer isLarger) ?h0 (candidates cs)"
  let ?card = "?sel\<lparr>Body := encode_chunks (opaque_chunks cs)\<rparr>"
  have sc: "scan LastLongest (hdr @ encode_chunks cs) = Some (Inr ?card)"
    using scan_deep [OF assms, of LastLongest] by (simp add: LastLongest_def)
  have sel: "\<exists>i. last_maximal (\<lambda>x. length (payload x)) (candidates cs) i \<and>
             RawCharaData ?sel = payload (candidates cs ! i) \<and>
             RawCard.Revision ?sel = fst (candidates cs ! i)"
    if ne: "candidates cs \<noteq> []"
  proof -
    have "\<exists>i<length (candidates cs).
        RawCharaData ?sel = payload (candidates cs ! i) \<and>
        RawCard.Revision ?sel = fst (candidates cs ! i) \<and>
        int (length (RawCharaData ?sel)) = int (length (payload (candidates cs ! i))) \<and>
        (\<forall>j<length (candidates cs). int (length (payload (candidates cs ! j))) \<le> int (length (payload (candidates cs ! i)))) \<and>
        (\<forall>j. i < j \<and> j < length (candidates cs) \<longrightarrow> int (length (payload (candidates cs ! j))) < int (length (payload (candidates cs ! i))))"
    proof (rule foldl_offer_select [where G = "\<lambda>x. \<exists>c. is_candidate c \<and> x = candidate_of c"
          and key = "\<lambda>x. int (length (payload x))" and hkey = "\<lambda>h. int (length (RawCharaData h))"])
      show "isLarger h (snd x) (fst x) \<longleftrightarrow> int (length (RawCharaData h)) \<le> int (length (payload x))"
        if "\<exists>c. is_candidate c \<and> x = candidate_of c" for h x
      proof -
        from that obtain c where c: "is_candidate c" "x = candidate_of c" by blast
        show ?thesis
          using candidate_payload_length [OF c(1)] c(2) by (simp add: isLarger_def)
      qed
      show "\<forall>x\<in>set (candidates cs). \<exists>c. is_candidate c \<and> x = candidate_of c"
        using candidates_G by blast
    qed (simp_all add: ne)
    then show ?thesis
      by (auto simp add: last_maximal_def)
  qed
  show ?thesis
    using sc sel by (intro exI [of _ ?card]) (auto simp add: offer_Header)
qed


lemma scan_LastVersion_candidates:
  assumes "wf_header hdr" and "\<forall>c\<in>set cs. wf_chunk c"
  shows "\<exists>card. scan LastVersion (hdr @ encode_chunks cs) = Some (Inr card) \<and>
     Header card = hdr \<and> Body card = encode_chunks (opaque_chunks cs) \<and>
     (candidates cs \<noteq> [] \<longrightarrow>
        (\<exists>i. last_maximal fst (candidates cs) i \<and>
             RawCharaData card = payload (candidates cs ! i) \<and>
             RawCard.Revision card = fst (candidates cs ! i))) \<and>
     (\<forall>a b. candidates cs = [a, b] \<and> fst a = RevisionV2 \<and> fst b = RevisionV3 \<longrightarrow>
        RawCharaData card = payload b \<and> RawCard.Revision card = RevisionV3) \<and>
     (\<forall>a b. candidates cs = [a, b] \<and> fst a = RevisionV3 \<and> fst b = RevisionV2 \<longrightarrow>
        RawCharaData card = payload a \<and> RawCard.Revision card = RevisionV3)"
proof -
  let ?h0 = "\<lparr>Header = hdr, Body = [], RawCharaData = [], Revision = 0\<rparr> :: RawCard"
  let ?sel = "foldl (offer isHigherVersion) ?h0 (candidates cs)"
  let ?card = "?sel\<lparr>Body := encode_chunks (opaque_chunks cs)\<rparr>"
  have sc: "scan LastVersion (hdr @ encode_chunks cs) = Some (Inr ?card)"
    using scan_deep [OF assms, of LastVersion] by (simp add: LastVersion_def)
  have sel: "\<exists>i. last_maximal fst (candidates cs) i \<and>
             RawCharaData ?sel = payload (candidates cs ! i) \<and>
             RawCard.Revision ?sel = fst (candidates cs ! i)"
    if ne: "candidates cs \<noteq> []"
  proof -
    have "\<exists>i<length (candidates cs).
        RawCharaData ?sel = payload (candidates cs ! i) \<and>
        RawCard.Revision ?sel = fst (candidates cs ! i) \<and>
        RawCard.Revision ?sel = fst (candidates cs ! i) \<and>
        (\<forall>j<length (candidates cs). fst (candidates cs ! j) \<le> fst (candidates cs ! i)) \<and>
        (\<forall>j. i < j \<and> j < length (candidates cs) \<longrightarrow> fst (candidates cs ! j) < fst (candidates cs ! i))"
    proof (rule foldl_offer_select [where G = "\<lambda>x. \<exists>c. is_candidate c \<and> x = candidate_of c"
          and key = fst and hkey = RawCard.Revision])
      show "RawCard.Revision ?h0 \<le> fst x" if "\<exists>c. is_candidate c \<and> x = candidate_of c" for x
      proof -
        from that obtain c where c: "is_candidate c" "x = candidate_of c" by blast
        show ?thesis
          using candidate_revision [OF c(1)] c(2) by (auto simp add: RevisionV2_def RevisionV3_def)
      qed
      show "\<forall>x\<in>set (candidates cs). \<exists>c. is_candidate c \<and> x = candidate_of c"
        using candidates_G by blast
    qed (simp_all add: ne isHigherVersion_def)
    then show ?thesis
      by (auto simp add: last_maximal_def)
  qed
  have two23: "RawCharaData ?sel = payload b \<and> RawCard.Revision ?sel = RevisionV3"
    if "candidates cs = [a, b]" "fst a = RevisionV2" "fst b = RevisionV3" for a b
    using that by (simp add: offer_def isHigherVersion_def RevisionV2_def RevisionV3_def)
  have two32: "RawCharaData ?sel = payload a \<and> RawCard.Revision ?sel = RevisionV3"
    if "candidates cs = [a, b]" "fst a = RevisionV3" "fst b = RevisionV2" for a b
    using that by (simp add: offer_def isHigherVersion_def RevisionV2_def RevisionV3_def)
  show ?thesis
    using sc sel two23 two32 by (intro exI [of _ ?card]) (auto simp add: offer_Header)
qed


lemma isCharaChunk_unfold:
  "isCharaChunk d =
     (if bytes_HasPrefix d charaKeyword then (RevisionV2, True)
      else if bytes_HasPrefix d ccv3Keyword then (RevisionV3, True)
      else (RevisionV2, False))"
  by (auto simp add: isCharaChunk_def keywords_V2 keywords_V3 bytes_HasPrefix_def
      charaKeyword_def ccv3Keyword_def)

lemma bytes_HasPrefix_take:
  "pre \<noteq> [] \<Longrightarrow> bytes_HasPrefix d pre \<longleftrightarrow> take (length pre) d = pre"
  by (auto simp add: bytes_HasPrefix_def) (metis length_take min.cobounded1)

lemma payload_of_candidate:
  "payload_of c =
     (if is_candidate c then Some (fst (candidate_of c), payload (candidate_of c)) else None)"
proof -
  have ne: "charaKeyword \<noteq> []" "ccv3Keyword \<noteq> []"
    by (simp_all add: charaKeyword_def ccv3Keyword_def)
  show ?thesis
    by (simp add: payload_of_def recognised_def is_candidate_def candidate_of_def payload_def
        isCharaChunk_unfold bytes_HasPrefix_take [OF ne(1)] bytes_HasPrefix_take [OF ne(2)]
        keywordsLength_at_V2 keywordsLength_at_V3 length_charaKeyword length_ccv3Keyword)
qed

lemma payload_chunks_candidates:
  "payload_chunks cs = map (\<lambda>x. (fst x, payload x)) (candidates cs)"
  by (induction cs)
     (simp_all add: payload_chunks_def candidates_def List.map_filter_simps payload_of_candidate)

lemma last_maximal_map:
  "last_maximal key (map f xs) i \<longleftrightarrow> last_maximal (\<lambda>x. key (f x)) xs i"
  by (auto simp add: last_maximal_def)

lemma longest_example_wf: "\<forall>c\<in>set longest_example. wf_chunk c"
  by (simp add: longest_example_def v2_chunk_wf v3_chunk_wf iend_chunk_wf text_a_def text_b_def
      text_c_def)

lemma payload_of_v2_chunk: "payload_of (v2_chunk text) = Some (RevisionV2, text)"
  by (simp add: payload_of_def recognised_def v2_chunk_def)

lemma payload_of_v3_chunk: "payload_of (v3_chunk text) = Some (RevisionV3, text)"
  by (simp add: payload_of_def recognised_def v3_chunk_def charaKeyword_def ccv3Keyword_def)

lemma payload_of_iend_chunk: "payload_of iend_chunk = None"
  by (simp add: payload_of_def iend_chunk_def chunkTextTypeCode_def)

lemma opaque_v2_chunk: "ctype (v2_chunk text) = chunkTextTypeCode"
  by (simp add: v2_chunk_def)

lemma opaque_v3_chunk: "ctype (v3_chunk text) = chunkTextTypeCode"
  by (simp add: v3_chunk_def)

lemma opaque_iend_chunk: "ctype iend_chunk \<noteq> chunkTextTypeCode"
  by (simp add: iend_chunk_def chunkTextTypeCode_def)

lemma last_maximal_two:
  assumes "last_maximal key [x, y] i"
  shows "(key x \<le> key y \<longrightarrow> i = 1) \<and> (key y < key x \<longrightarrow> i = 0)"
proof -
  from assms have i2: "i < length [x, y]"
    and mx: "\<forall>j<length [x, y]. key ([x, y] ! j) \<le> key ([x, y] ! i)"
    and lt: "\<forall>j. i < j \<and> j < length [x, y] \<longrightarrow> key ([x, y] ! j) < key ([x, y] ! i)"
    unfolding last_maximal_def by blast+
  from i2 have "i = 0 \<or> i = 1" by auto
  then show ?thesis
  proof
    assume "i = 0"
    with spec [OF lt, of 1] have "key y < key x" by simp
    with \<open>i = 0\<close> show ?thesis by simp
  next
    assume "i = 1"
    with spec [OF mx, of 0] have "key x \<le> key y" by simp
    with \<open>i = 1\<close> show ?thesis by simp
  qed
qed

lemma version_examples_wf:
  "\<forall>c\<in>set version_example_32. wf_chunk c" "\<forall>c\<in>set version_example_23. wf_chunk c"
  by (simp_all add: version_example_32_def version_example_23_def v2_chunk_wf v3_chunk_wf
      iend_chunk_wf text_a_def text_c_def)

text \<open>
  C5. Under \<open>LastLongest\<close>, for a stream of well-formed chunks after a well-formed
  header, \<open>Get\<close> succeeds; the payload and revision returned are those of a recognised
  payload chunk whose payload (the content after the keyword) has maximal length among
  all recognised payload chunks of the stream and, among those of that maximal length, the
  one met last (the comparison of \<open>isLarger\<close> is not strict). Without recognised payload
  chunks the payload is empty and the revision 0. \<open>Body\<close> is the chunks that are not
  text chunks, in their order.
\<close>

theorem LastLongest_selects_longest:
  assumes "wf_header hdr" and "\<forall>c\<in>set cs. wf_chunk c"
  shows "\<exists>card. scan LastLongest (hdr @ encode_chunks cs) = Some (Inr card) \<and>
     Header card = hdr \<and> Body card = encode_chunks (opaque_chunks cs) \<and>
     (payload_chunks cs = [] \<longrightarrow> RawCharaData card = [] \<and> RawCard.Revision card = 0) \<and>
     (payload_chunks cs \<noteq> [] \<longrightarrow>
        (\<exists>i. last_maximal (\<lambda>x. length (snd x)) (payload_chunks cs) i \<and>
             RawCharaData card = snd (payload_chunks cs ! i) \<and>
             RawCard.Revision card = fst (payload_chunks cs ! i)))"
proof -
  from scan_LastLongest_candidates [OF assms]
  obtain card where card: "scan LastLongest (hdr @ encode_chunks cs) = Some (Inr card)"
      "Header card = hdr" "Body card = encode_chunks (opaque_chunks cs)"
      "candidates cs = [] \<longrightarrow> RawCharaData card = [] \<and> RawCard.Revision card = 0"
      "candidates cs \<noteq> [] \<longrightarrow>
        (\<exists>i. last_maximal (\<lambda>x. length (payload x)) (candidates cs) i \<and>
             RawCharaData card = payload (candidates cs ! i) \<and>
             RawCard.Revision card = fst (candidates cs ! i))"
    by blast
  have sel: "\<exists>i. last_maximal (\<lambda>x. length (snd x)) (payload_chunks cs) i \<and>
             RawCharaData card = snd (payload_chunks cs ! i) \<and>
             RawCard.Revision card = fst (payload_chunks cs ! i)"
    if "payload_chunks cs \<noteq> []"
  proof -
    from that have "candidates cs \<noteq> []" by (simp add: payload_chunks_candidates)
    with card(5) obtain i where i: "last_maximal (\<lambda>x. length (payload x)) (candidates cs) i"
        "RawCharaData card = payload (candidates cs ! i)"
        "RawCard.Revision card = fst (candidates cs ! i)"
      by blast
    from i(1) have "i < length (candidates cs)" by (simp add: last_maximal_def)
    with i show ?thesis
      by (intro exI [of _ i]) (simp add: payload_chunks_candidates last_maximal_map)
  qed
  show ?thesis
    using card(1,2,3,4) sel
    by (intro exI [of _ card]) (simp add: payload_chunks_candidates)
qed

theorem LastLongest_selects_longest_witness:
  "wf_header example_header \<and> list_all wf_chunk longest_example \<and>
   payload_chunks longest_example =
     [(RevisionV3, text_a), (RevisionV2, text_c), (RevisionV2, text_b)] \<and>
   length text_a = 12 \<and> length text_c = 4 \<and> length text_b = 12 \<and>
   scan LastLongest (example_header @ encode_chunks longest_example) =
     Some (Inr \<lparr>Header = example_header, Body = encode_chunk iend_chunk,
               RawCharaData = text_b, Revision = RevisionV2\<rparr>)"
proof -
  let ?xs = "[(RevisionV3, text_a), (RevisionV2, text_c), (RevisionV2, text_b)]"
  have pc: "payload_chunks longest_example = ?xs"
    by (simp add: payload_chunks_def longest_example_def List.map_filter_simps
        payload_of_v2_chunk payload_of_v3_chunk payload_of_iend_chunk)
  have len: "length text_a = 12" "length text_c = 4" "length text_b = 12"
    by (simp_all add: text_a_def text_b_def text_c_def)
  have op: "encode_chunks (opaque_chunks longest_example) = encode_chunk iend_chunk"
    by (simp add: opaque_chunks_def longest_example_def opaque_v2_chunk opaque_v3_chunk
        opaque_iend_chunk encode_chunks_def)
  from LastLongest_selects_longest [OF example_header_wf longest_example_wf]
  obtain card i where card:
      "scan LastLongest (example_header @ encode_chunks longest_example) = Some (Inr card)"
      "Header card = example_header" "Body card = encode_chunk iend_chunk"
      "last_maximal (\<lambda>x. length (snd x)) ?xs i"
      "RawCharaData card = snd (?xs ! i)" "RawCard.Revision card = fst (?xs ! i)"
    unfolding pc op by auto
  from card(4) have i3: "i < 3"
    and mx: "\<forall>j<3. length (snd (?xs ! j)) \<le> length (snd (?xs ! i))"
    and lt: "\<forall>j. i < j \<and> j < 3 \<longrightarrow> length (snd (?xs ! j)) < length (snd (?xs ! i))"
    by (simp_all add: last_maximal_def)
  have "i \<noteq> 0"
  proof
    assume "i = 0"
    with spec [OF lt, of 2] have "length (snd (?xs ! 2)) < length (snd (?xs ! 0))" by simp
    then show False by (simp add: len)
  qed
  moreover have "i \<noteq> 1"
  proof
    assume "i = 1"
    with spec [OF mx, of 0] have "length (snd (?xs ! 0)) \<le> length (snd (?xs ! 1))" by simp
    then show False by (simp add: len)
  qed
  ultimately have "i = 2" using i3 by arith
  with card(5,6) have "RawCharaData card = text_b" "RawCard.Revision card = RevisionV2"
    by simp_all
  with card(2,3) have "card = \<lparr>Header = example_header, Body = encode_chunk iend_chunk,
               RawCharaData = text_b, Revision = RevisionV2\<rparr>"
    by (cases card) simp
  with card(1) pc len example_header_wf longest_example_wf show ?thesis
    by (simp add: list_all_iff)
qed

text \<open>
  C6. Under \<open>LastVersion\<close>, for a stream of well-formed chunks after a well-formed
  header, \<open>Get\<close> succeeds and returns the last recognised payload chunk of the highest
  revision (\<open>isHigherVersion\<close> compares revisions only, not strictly). In particular,
  when the stream has exactly two recognised payload chunks, of revisions 2 and 3 in
  either order, the payload of the revision-3 chunk is returned.
\<close>

theorem LastVersion_selects_highest:
  assumes "wf_header hdr" and "\<forall>c\<in>set cs. wf_chunk c"
  shows "\<exists>card. scan LastVersion (hdr @ encode_chunks cs) = Some (Inr card) \<and>
     Header card = hdr \<and> Body card = encode_chunks (opaque_chunks cs) \<and>
     (payload_chunks cs \<noteq> [] \<longrightarrow>
        (\<exists>i. last_maximal fst (payload_chunks cs) i \<and>
             RawCharaData card = snd (payload_chunks cs ! i) \<and>
             RawCard.Revision card = fst (payload_chunks cs ! i))) \<and>
     (\<forall>a b. payload_chunks cs = [(RevisionV2, a), (RevisionV3, b)] \<longrightarrow>
        RawCharaData card = b \<and> RawCard.Revision card = RevisionV3) \<and>
     (\<forall>a b. payload_chunks cs = [(RevisionV3, a), (RevisionV2, b)] \<longrightarrow>
        RawCharaData card = a \<and> RawCard.Revision card = RevisionV3)"
proof -
  from scan_LastVersion_candidates [OF assms]
  obtain card where card: "scan LastVersion (hdr @ encode_chunks cs) = Some (Inr card)"
      "Header card = hdr" "Body card = encode_chunks (opaque_chunks cs)"
      "candidates cs \<noteq> [] \<longrightarrow>
        (\<exists>i. last_maximal fst (candidates cs) i \<and>
             RawCharaData card = payload (candidates cs ! i) \<and>
             RawCard.Revision card = fst (candidates cs ! i))"
    by blast
  have sel: "\<exists>i. last_maximal fst (payload_chunks cs) i \<and>
             RawCharaData card = snd (payload_chunks cs ! i) \<and>
             RawCard.Revision card = fst (payload_chunks cs ! i)"
    if "payload_chunks cs \<noteq> []"
  proof -
    from that have "candidates cs \<noteq> []" by (simp add: payload_chunks_candidates)
    with card(4) obtain i where i: "last_maximal fst (candidates cs) i"
        "RawCharaData card = payload (candidates cs ! i)"
        "RawCard.Revision card = fst (candidates cs ! i)"
      by blast
    from i(1) have "i < length (candidates cs)" by (simp add: last_maximal_def)
    with i show ?thesis
      by (intro exI [of _ i]) (simp add: payload_chunks_candidates last_maximal_map)
  qed
  have two23: "RawCharaData card = b \<and> RawCard.Revision card = RevisionV3"
    if pc: "payload_chunks cs = [(RevisionV2, a), (RevisionV3, b)]" for a b
  proof -
    from sel pc obtain i where i: "last_maximal fst [(RevisionV2, a), (RevisionV3, b)] i"
        "RawCharaData card = snd ([(RevisionV2, a), (RevisionV3, b)] ! i)"
        "RawCard.Revision card = fst ([(RevisionV2, a), (RevisionV3, b)] ! i)"
      by auto
    from last_maximal_two [OF i(1)] have "i = 1"
      by (simp add: RevisionV2_def RevisionV3_def)
    with i(2,3) show ?thesis by simp
  qed
  have two32: "RawCharaData card = a \<and> RawCard.Revision card = RevisionV3"
    if pc: "payload_chunks cs = [(RevisionV3, a), (RevisionV2, b)]" for a b
  proof -
    from sel pc obtain i where i: "last_maximal fst [(RevisionV3, a), (RevisionV2, b)] i"
        "RawCharaData card = snd ([(RevisionV3, a), (RevisionV2, b)] ! i)"
        "RawCard.Revision card = fst ([(RevisionV3, a), (RevisionV2, b)] ! i)"
      by auto
    from last_maximal_two [OF i(1)] have "i = 0"
      by (simp add: RevisionV2_def RevisionV3_def)
    with i(2,3) show ?thesis by simp
  qed
  show ?thesis
    using card(1,2,3) sel two23 two32
    by (intro exI [of _ card]) blast
qed

theorem LastVersion_selects_highest_witness:
  "wf_header example_header \<and>
   list_all wf_chunk version_example_32 \<and> list_all wf_chunk version_example_23 \<and>
   payload_chunks version_example_32 = [(RevisionV3, text_c), (RevisionV2, text_a)] \<and>
   payload_chunks version_example_23 = [(RevisionV2, text_a), (RevisionV3, text_c)] \<and>
   scan LastVersion (example_header @ encode_chunks version_example_32) =
     Some (Inr \<lparr>Header = example_header, Body = encode_chunk iend_chunk,
               RawCharaData = text_c, Revision = RevisionV3\<rparr>) \<and>
   scan LastVersion (example_header @ encode_chunks version_example_23) =
     Some (Inr \<lparr>Header = example_header, Body = encode_chunk iend_chunk,
               RawCharaData = text_c, Revision = RevisionV3\<rparr>)"
proof -
  have pc32: "payload_chunks version_example_32 = [(RevisionV3, text_c), (RevisionV2, text_a)]"
    by (simp add: payload_chunks_def version_example_32_def List.map_filter_simps
        payload_of_v2_chunk payload_of_v3_chunk payload_of_iend_chunk)
  have pc23: "payload_chunks version_example_23 = [(RevisionV2, text_a), (RevisionV3, text_c)]"
    by (simp add: payload_chunks_def version_example_23_def List.map_filter_simps
        payload_of_v2_chunk payload_of_v3_chunk payload_of_iend_chunk)
  have op: "encode_chunks (opaque_chunks version_example_32) = encode_chunk iend_chunk"
    "encode_chunks (opaque_chunks version_example_23) = encode_chunk iend_chunk"
    by (simp_all add: opaque_chunks_def version_example_32_def version_example_23_def
        opaque_v2_chunk opaque_v3_chunk opaque_iend_chunk encode_chunks_def)
  from LastVersion_selects_highest [OF example_header_wf version_examples_wf(1), unfolded pc32 op(1)]
  obtain card where c:
      "scan LastVersion (example_header @ encode_chunks version_example_32) = Some (Inr card)"
      "Header card = example_header" "Body card = encode_chunk iend_chunk"
    and c32: "\<forall>a b. [(RevisionV3, text_c), (RevisionV2, text_a)] = [(RevisionV3, a), (RevisionV2, b)] \<longrightarrow>
        RawCharaData card = a \<and> RawCard.Revision card = RevisionV3"
    by blast
  from c32 have card: "RawCharaData card = text_c" "RawCard.Revision card = RevisionV3"
    by blast+
  from LastVersion_selects_highest [OF example_header_wf version_examples_wf(2), unfolded pc23 op(2)]
  obtain card' where c':
      "scan LastVersion (example_header @ encode_chunks version_example_23) = Some (Inr card')"
      "Header card' = example_header" "Body card' = encode_chunk iend_chunk"
    and c23: "\<forall>a b. [(RevisionV2, text_a), (RevisionV3, text_c)] = [(RevisionV2, a), (RevisionV3, b)] \<longrightarrow>
        RawCharaData card' = b \<and> RawCard.Revision card' = RevisionV3"
    by blast
  from c23 have card': "RawCharaData card' = text_c" "RawCard.Revision card' = RevisionV3"
    by blast+
  have "card = \<lparr>Header = example_header, Body = encode_chunk iend_chunk,
               RawCharaData = text_c, Revision = RevisionV3\<rparr>"
    using c(2,3) card by (cases card) simp
  moreover have "card' = \<lparr>Header = example_header, Body = encode_chunk iend_chunk,
               RawCharaData = text_c, Revision = RevisionV3\<rparr>"
    using c'(2,3) card' by (cases card') simp
  ultimately show ?thesis
    using c(1) c'(1) pc32 pc23 example_header_wf version_examples_wf
    by (simp add: list_all_iff)
qed

section \<open>Round trip\<close>

text \<open>
  Decoding what \<open>ToRaw\<close> encoded gives the JSON text back, and \<open>ToCharacter\<close> on a
  card of revision 2 or 3 stamps the decoded sheet with that revision.
\<close>

lemma RawCard_ToRawJson_Encode:
  assumes "json \<noteq> []"
  shows "RawCard_ToRawJson \<lparr>Header = hdr, Body = body, RawCharaData = base64_Encode json,
            Revision = V\<rparr> =
         Inr \<lparr>Header = hdr, Body = body, RawJsonData = json, RawJsonCard.Revision = V\<rparr>"
  using base64_Encode_nonempty [OF assms]
  by (simp add: RawCard_ToRawJson_def base64_Decode_Encode)

lemma ToCharacter_stamped:
  assumes "json \<noteq> []" and "V = RevisionV2 \<or> V = RevisionV3"
  shows "ToCharacter character_FromBytes
           \<lparr>Header = hdr, Body = body, RawJsonData = json, RawJsonCard.Revision = V\<rparr> =
         (case character_FromBytes json of
            Inl e \<Rightarrow> Inl e
          | Inr s \<Rightarrow>
              Inr \<lparr>Header = hdr, Body = body,
                   Sheet = Some \<lparr>Sheet.Spec = (if V = RevisionV2 then SpecV2 else SpecV3),
                                 Sheet.Version = (if V = RevisionV2 then V2 else V3),
                                 Sheet.Revision = V, Content = Content s\<rparr>\<rparr>)"
proof (cases "character_FromBytes json")
  case (Inl e)
  with assms(1) show ?thesis by (simp add: ToCharacter_def)
next
  case (Inr s)
  from assms(2) show ?thesis
  proof
    assume "V = RevisionV2"
    with Inr assms(1) show ?thesis
      by (cases s) (simp add: ToCharacter_def Stamps_at_V2)
  next
    assume "V = RevisionV3"
    with Inr assms(1) Revision_distinct show ?thesis
      by (cases s) (simp add: ToCharacter_def Stamps_at_V3)
  qed
qed

text \<open>
  C1. A structured card with a sheet of revision \<open>V\<close> (2 or 3), whose JSON encoding
  succeeds with a non-empty text, a well-formed header and an encoded payload that fits a
  chunk: \<open>Encode\<close> gives a card holding the base64 text and \<open>V\<close>; writing it with
  \<open>ToImage\<close> and scanning the bytes under \<open>First\<close> returns that very card, so
  \<open>RawCharaData\<close> is byte-identical and the revision is \<open>V\<close>; decoding the scanned
  card gives back the JSON text byte for byte (\<open>ToRawJson\<close>), and \<open>Decode\<close> hands that
  text to the JSON decoder: it returns the decoder's error, or the card with the decoded
  content under the spec, version and revision of \<open>V\<close>.
\<close>

theorem encode_inject_scan_roundtrip:
  assumes "Sheet cc = Some sheet"
    and "Sheet.Revision sheet = V" and "V = RevisionV2 \<or> V = RevisionV3"
    and "Sheet_ToBytes sheet = Inr json" and "json \<noteq> []"
    and "wf_header (Header cc)" and "length (base64_Encode json) + 6 < 2 ^ 32"
  shows "\<exists>rc rc'. Encode Sheet_ToBytes cc = Inr rc \<and>
     RawCharaData rc = base64_Encode json \<and> RawCard.Revision rc = V \<and>
     scan First (RawCard_ToBytes rc) = Some (Inr rc') \<and>
     RawCharaData rc' = RawCharaData rc \<and> RawCard.Revision rc' = V \<and> rc' = rc \<and>
     RawCard_ToRawJson rc' =
       Inr \<lparr>Header = Header cc, Body = Body cc, RawJsonData = json,
            RawJsonCard.Revision = V\<rparr> \<and>
     Decode character_FromBytes rc' =
       (case character_FromBytes json of
          Inl e \<Rightarrow> Inl (Inr e)
        | Inr s \<Rightarrow>
            Inr \<lparr>Header = Header cc, Body = Body cc,
                 Sheet = Some \<lparr>Sheet.Spec = (if V = RevisionV2 then SpecV2 else SpecV3),
                               Sheet.Version = (if V = RevisionV2 then V2 else V3),
                               Sheet.Revision = V, Content = Content s\<rparr>\<rparr>)"
proof -
  let ?rc = "\<lparr>Header = Header cc, Body = Body cc, RawCharaData = base64_Encode json,
               Revision = V\<rparr> :: RawCard"
  have enc: "Encode Sheet_ToBytes cc = Inr ?rc"
    using assms(1,2,4,5)
    by (simp add: Encode_def CharacterCard_ToRawJson_def ToRaw_def)
  have ne: "RawCharaData ?rc \<noteq> []"
    using base64_Encode_nonempty [OF assms(5)] by simp
  have sc: "scan First (RawCard_ToBytes ?rc) = Some (Inr ?rc)"
    using rescan_injected [OF ne] assms(3,6,7) Revision_distinct by auto
  have rj: "RawCard_ToRawJson ?rc =
       Inr \<lparr>Header = Header cc, Body = Body cc, RawJsonData = json,
            RawJsonCard.Revision = V\<rparr>"
    by (rule RawCard_ToRawJson_Encode [OF assms(5)])
  have dec: "Decode character_FromBytes ?rc =
       (case character_FromBytes json of
          Inl e \<Rightarrow> Inl (Inr e)
        | Inr s \<Rightarrow>
            Inr \<lparr>Header = Header cc, Body = Body cc,
                 Sheet = Some \<lparr>Sheet.Spec = (if V = RevisionV2 then SpecV2 else SpecV3),
                               Sheet.Version = (if V = RevisionV2 then V2 else V3),
                               Sheet.Revision = V, Content = Content s\<rparr>\<rparr>)"
    unfolding Decode_def rj sum.case ToCharacter_stamped [OF assms(5,3)]
    by (cases "character_FromBytes json") simp_all
  show ?thesis
    apply (rule exI [of _ ?rc])
    apply (rule exI [of _ ?rc])
    apply (intro conjI enc sc rj dec)
        apply simp_all
    done
qed

theorem encode_inject_scan_roundtrip_witness:
  "Sheet example_card = Some (example_sheet RevisionV3) \<and>
   Sheet.Revision (example_sheet RevisionV3) = RevisionV3 \<and>
   encode_as empty_json_object (example_sheet RevisionV3) = Inr empty_json_object \<and>
   empty_json_object \<noteq> [] \<and> wf_header (Header example_card) \<and>
   length (base64_Encode empty_json_object) + 6 < 2 ^ 32 \<and>
   Encode (encode_as empty_json_object) example_card =
     Inr \<lparr>Header = example_header, Body = encode_chunk iend_chunk,
          RawCharaData = [0x65, 0x33, 0x30, 0x3D], Revision = RevisionV3\<rparr> \<and>
   scan First (RawCard_ToBytes
       \<lparr>Header = example_header, Body = encode_chunk iend_chunk,
        RawCharaData = [0x65, 0x33, 0x30, 0x3D], Revision = RevisionV3\<rparr>) =
     Some (Inr \<lparr>Header = example_header, Body = encode_chunk iend_chunk,
               RawCharaData = [0x65, 0x33, 0x30, 0x3D], Revision = RevisionV3\<rparr>) \<and>
   RawCard_ToRawJson
       \<lparr>Header = example_header, Body = encode_chunk iend_chunk,
        RawCharaData = [0x65, 0x33, 0x30, 0x3D], Revision = RevisionV3\<rparr> =
     Inr \<lparr>Header = example_header, Body = encode_chunk iend_chunk,
          RawJsonData = empty_json_object, RawJsonCard.Revision = RevisionV3\<rparr> \<and>
   decode_exactly empty_json_object (example_sheet RevisionV2) empty_json_object =
     Inr \<lparr>Sheet.Spec = SpecV2, Sheet.Version = V2, Sheet.Revision = RevisionV2, Content = ()\<rparr> \<and>
   Decode (decode_exactly empty_json_object (example_sheet RevisionV2))
       \<lparr>Header = example_header, Body = encode_chunk iend_chunk,
        RawCharaData = [0x65, 0x33, 0x30, 0x3D], Revision = RevisionV3\<rparr> =
     Inr example_card"
proof -
  let ?rc = "\<lparr>Header = example_header, Body = encode_chunk iend_chunk,
        RawCharaData = [0x65, 0x33, 0x30, 0x3D], Revision = RevisionV3\<rparr> :: RawCard"
  have a: "Sheet example_card = Some (example_sheet RevisionV3)"
    by (simp add: example_card_def)
  have s3: "example_sheet RevisionV3 =
     \<lparr>Sheet.Spec = SpecV3, Sheet.Version = V3, Sheet.Revision = RevisionV3, Content = ()\<rparr>"
    by (simp add: example_sheet_def DefaultSheet_V3)
  have s2: "example_sheet RevisionV2 =
     \<lparr>Sheet.Spec = SpecV2, Sheet.Version = V2, Sheet.Revision = RevisionV2, Content = ()\<rparr>"
    by (simp add: example_sheet_def DefaultSheet_V2)
  have b: "Sheet.Revision (example_sheet RevisionV3) = RevisionV3"
    by (simp add: s3)
  have c: "RevisionV3 = RevisionV2 \<or> RevisionV3 = RevisionV3" by simp
  have d: "encode_as empty_json_object (example_sheet RevisionV3) = Inr empty_json_object"
    by (simp add: encode_as_def)
  have e: "empty_json_object \<noteq> []" by (simp add: empty_json_object_def)
  have f: "wf_header (Header example_card)"
    using example_header_wf by (simp add: example_card_def)
  have g: "length (base64_Encode empty_json_object) + 6 < 2 ^ 32"
    by (simp add: empty_json_object_def)
  have dx: "decode_exactly empty_json_object (example_sheet RevisionV2) empty_json_object =
     Inr \<lparr>Sheet.Spec = SpecV2, Sheet.Version = V2, Sheet.Revision = RevisionV2, Content = ()\<rparr>"
    by (simp add: decode_exactly_def s2)
  have enc: "Encode (encode_as empty_json_object) example_card = Inr ?rc"
    using e
    by (simp add: Encode_def CharacterCard_ToRawJson_def ToRaw_def example_card_def
        encode_as_def s3 base64_Encode_example)
  have card: "example_card =
     \<lparr>Header = example_header, Body = encode_chunk iend_chunk,
      Sheet = Some \<lparr>Sheet.Spec = SpecV3, Sheet.Version = V3, Sheet.Revision = RevisionV3,
                    Content = ()\<rparr>\<rparr>"
    by (simp add: example_card_def s3)
  from encode_inject_scan_roundtrip
      [where Sheet_ToBytes = "encode_as empty_json_object"
         and character_FromBytes = "decode_exactly empty_json_object (example_sheet RevisionV2)",
       OF a b c d e f g]
  obtain rc rc' where r:
      "Encode (encode_as empty_json_object) example_card = Inr rc"
      "scan First (RawCard_ToBytes rc) = Some (Inr rc')" "rc' = rc"
      "RawCard_ToRawJson rc' =
         Inr \<lparr>Header = Header example_card, Body = Body example_card,
              RawJsonData = empty_json_object, RawJsonCard.Revision = RevisionV3\<rparr>"
      "Decode (decode_exactly empty_json_object (example_sheet RevisionV2)) rc' =
       (case decode_exactly empty_json_object (example_sheet RevisionV2) empty_json_object of
          Inl e \<Rightarrow> Inl (Inr e)
        | Inr s \<Rightarrow>
            Inr \<lparr>Header = Header example_card, Body = Body example_card,
                 Sheet = Some \<lparr>Sheet.Spec = (if RevisionV3 = RevisionV2 then SpecV2 else SpecV3),
                               Sheet.Version = (if RevisionV3 = RevisionV2 then V2 else V3),
                               Sheet.Revision = RevisionV3, Content = Content s\<rparr>\<rparr>)"
    by blast
  from r(1) enc have rc: "rc = ?rc" by simp
  have hb: "Header example_card = example_header" "Body example_card = encode_chunk iend_chunk"
    by (simp_all add: example_card_def)
  have ne: "RevisionV3 \<noteq> RevisionV2" using Revision_distinct by simp
  have sc: "scan First (RawCard_ToBytes ?rc) = Some (Inr ?rc)"
    using r(2) unfolding r(3) rc .
  have rj: "RawCard_ToRawJson ?rc =
     Inr \<lparr>Header = example_header, Body = encode_chunk iend_chunk,
          RawJsonData = empty_json_object, RawJsonCard.Revision = RevisionV3\<rparr>"
    using r(4) unfolding r(3) rc hb .
  have dec: "Decode (decode_exactly empty_json_object (example_sheet RevisionV2)) ?rc =
     Inr example_card"
    using r(5) ne unfolding r(3) rc hb dx card by simp
  show ?thesis
    by (intro conjI a b d e f g enc sc rj dx dec)
qed

end
